theory Spec2Isabelle
  imports Main
begin

chapter \<open>The hooks, as functions\<close>

section \<open>Numbers\<close>

text \<open>
  A \<open>number\<close> of the source is an IEEE 754 double. Every finite double is a whole
  multiple of \<open>2^-1074\<close>, and \<open>Finite k\<close> is the double \<open>k * 2^-1074\<close>; \<open>Finite 0\<close> is
  \<open>+0\<close> and \<open>NegZero\<close> is \<open>-0\<close>. A double has at most 53 significant bits and is
  below \<open>2^1024\<close>, which is \<open>2^2098\<close> in these units.
\<close>

datatype number = NaN | Infinity | NegInfinity | NegZero | Finite int

text \<open>The number of bits of a natural number.\<close>

function bitlen :: "nat \<Rightarrow> nat" where
  "bitlen n = (if n = 0 then 0 else Suc (bitlen (n div 2)))"
  by pat_completeness auto
termination
  by (relation "measure (\<lambda>n. n)") auto

declare bitlen.simps [simp del]

text \<open>
  The double nearest to an exact value, given in the same units: the value is cut to
  53 significant bits, to the nearest and on a tie to the even one, and a result of
  \<open>2^1024\<close> or more is an infinity.
\<close>

definition round_double :: "int \<Rightarrow> number" where
  "round_double k =
     (let a = nat \<bar>k\<bar>;
          s = bitlen a - 53;
          q = a div 2 ^ s;
          r = a mod 2 ^ s;
          m = (if 2 ^ s < 2 * r \<or> (2 * r = 2 ^ s \<and> odd q) then Suc q else q);
          v = m * 2 ^ s
      in if 2 ^ 2098 \<le> v then (if k < 0 then NegInfinity else Infinity)
         else Finite (if k < 0 then - int v else int v))"

text \<open>
  \<open>x + y\<close>, \<open>-x\<close> and \<open>x - y\<close> on numbers. A sum of two finite doubles is their
  exact sum, rounded; a sum that is exactly zero is \<open>+0\<close>, and \<open>-0\<close> only as the sum
  of \<open>-0\<close> and \<open>-0\<close>.
\<close>

fun number_neg :: "number \<Rightarrow> number" where
  "number_neg NaN = NaN"
| "number_neg Infinity = NegInfinity"
| "number_neg NegInfinity = Infinity"
| "number_neg NegZero = Finite 0"
| "number_neg (Finite k) = (if k = 0 then NegZero else Finite (- k))"

fun number_add :: "number \<Rightarrow> number \<Rightarrow> number" where
  "number_add NaN y = NaN"
| "number_add x NaN = NaN"
| "number_add Infinity NegInfinity = NaN"
| "number_add NegInfinity Infinity = NaN"
| "number_add Infinity y = Infinity"
| "number_add x Infinity = Infinity"
| "number_add NegInfinity y = NegInfinity"
| "number_add x NegInfinity = NegInfinity"
| "number_add NegZero y = y"
| "number_add x NegZero = x"
| "number_add (Finite a) (Finite b) = round_double (a + b)"

definition number_sub :: "number \<Rightarrow> number \<Rightarrow> number" where
  "number_sub x y = number_add x (number_neg y)"

text \<open>The number that an integer literal such as \<open>10\<close> denotes.\<close>

definition Number :: "int \<Rightarrow> number" where
  "Number n = round_double (n * 2 ^ 1074)"

section \<open>useCounter\<close>

text \<open>
  \<^verbatim>\<open>
  export const useCounter = (initialState: number=10) => {
      const [counter, setCounter] = useState(initialState);
      return {
          counter,
          increment: (factor: number = 1) => setCounter((current) => current + factor),
          decrement: (factor: number = 1) => setCounter((current) => current - factor),
          reset: () => setCounter(initialState)
      }
  }
  \<close>
  A hook is a function that the component calls at every render. The cell of
  \<open>useState\<close> outlives the render: it is \<open>None\<close> before the first render and holds
  the current value afterwards. A parameter with a default is an \<open>option\<close>
  (\<open>None\<close> when the caller leaves it out). The callbacks that the hook returns are
  the updates they hand to \<open>setCounter\<close>: functions from the cell's value to its next
  value.
\<close>

record useCounter_result =
  counter :: number
  increment :: "number option \<Rightarrow> number \<Rightarrow> number"
  decrement :: "number option \<Rightarrow> number \<Rightarrow> number"
  reset :: "number \<Rightarrow> number"

definition useState :: "'a \<Rightarrow> 'a option \<Rightarrow> 'a" where
  "useState initialValue cell = (case cell of None \<Rightarrow> initialValue | Some v \<Rightarrow> v)"

definition default_param :: "'a \<Rightarrow> 'a option \<Rightarrow> 'a" where
  "default_param d arg = (case arg of None \<Rightarrow> d | Some v \<Rightarrow> v)"

definition useCounter :: "number option \<Rightarrow> number option \<Rightarrow> useCounter_result" where
  "useCounter initialState_arg cell =
     (let initialState = default_param (Number 10) initialState_arg in
      \<lparr>counter = useState initialState cell,
       increment = (\<lambda>factor current. number_add current (default_param (Number 1) factor)),
       decrement = (\<lambda>factor current. number_sub current (default_param (Number 1) factor)),
       reset = (\<lambda>current. initialState)\<rparr>)"

text \<open>
  What the component does with the hook: it renders, calling the hook with an
  argument, the user invokes one of the three callbacks of that render, the cell is
  updated and the component renders again, with the same argument or another.
  \<open>counter_after\<close> is the counter that a last render shows after a list of renders,
  each with its argument and the callback invoked in it.
\<close>

datatype counter_call = Increment "number option" | Decrement "number option" | Reset

fun invoke :: "useCounter_result \<Rightarrow> counter_call \<Rightarrow> number \<Rightarrow> number" where
  "invoke r (Increment factor) = increment r factor"
| "invoke r (Decrement factor) = decrement r factor"
| "invoke r Reset = reset r"

definition counter_step :: "number option \<Rightarrow> number option \<Rightarrow> counter_call \<Rightarrow> number option" where
  "counter_step initialState_arg cell c =
     (let r = useCounter initialState_arg cell in Some (invoke r c (counter r)))"

definition counter_after :: "(number option \<times> counter_call) list \<Rightarrow> number option \<Rightarrow> number" where
  "counter_after renders initialState_arg =
     counter (useCounter initialState_arg
       (foldl (\<lambda>cell (arg, c). counter_step arg cell c) None renders))"

section \<open>todoReducer\<close>

text \<open>
  \<^verbatim>\<open>
  export const todoReducer = (state: Todo[], action: any) => {
      switch (action.type) {
          case "add":
              return [...state, action.payload];
          case "delete":
              return state.filter((todo: Todo) => todo.id !== action.payload);
          case "toggle":
              return state.map((todo: Todo) => {
                  if (todo.id === action.payload) {
                      return { ...todo, done: !todo.done };
                  }
                  return todo;
              });
          default:
              return state;
      }
  }
  \<close>
  The actions are the ones \<open>useTodo\<close> dispatches: \<open>add\<close> carries a todo, \<open>delete\<close> and
  \<open>toggle\<close> carry an id; an action of any other type (\<open>Other\<close>, with that type)
  reaches the default case. \<open>===\<close> on two ids is equality of numbers.
\<close>

record Todo =
  id' :: int
  todo :: string
  "done" :: bool

datatype action = Add Todo | Delete int | Toggle int | Other string

fun todoReducer :: "Todo list \<Rightarrow> action \<Rightarrow> Todo list" where
  "todoReducer state (Add payload) = state @ [payload]"
| "todoReducer state (Delete payload) = filter (\<lambda>todo. id' todo \<noteq> payload) state"
| "todoReducer state (Toggle payload) =
     map (\<lambda>todo. if id' todo = payload then todo\<lparr>done := \<not> done todo\<rparr> else todo) state"
| "todoReducer state (Other t) = state"

definition initialState :: "Todo list" where
  "initialState = []"

section \<open>useForm\<close>

text \<open>
  \<^verbatim>\<open>
  export const useForm = <T extends Record<string, unknown>>(form: T) => {
      const [formState, setFormState] = useState<T>(form);
      const onInputChange = ({target}: ChangeEvent<HTMLInputElement>)=>{
          const {name, value} = target;
          setFormState((current) => ({
              ...current,
              [name]: value
          }));
      }
      const onResetForm = ()=>{
          setFormState(form);
      }
      return { formState, onInputChange, onResetForm }
  }
  \<close>
  An object is a map from its keys to their values. A value of type \<open>unknown\<close> is a
  text (what an input element's \<open>value\<close> is) or anything else.
\<close>

datatype 'u unknown = Text string | Value 'u

record target =
  name :: string
  "value" :: string

record 'u useForm_result =
  formState :: "string \<rightharpoonup> 'u unknown"
  onInputChange :: "target \<Rightarrow> (string \<rightharpoonup> 'u unknown) \<Rightarrow> (string \<rightharpoonup> 'u unknown)"
  onResetForm :: "(string \<rightharpoonup> 'u unknown) \<Rightarrow> (string \<rightharpoonup> 'u unknown)"

definition useForm ::
  "(string \<rightharpoonup> 'u unknown) \<Rightarrow> (string \<rightharpoonup> 'u unknown) option \<Rightarrow> 'u useForm_result" where
  "useForm form cell =
     \<lparr>formState = useState form cell,
      onInputChange = (\<lambda>target current. current(name target \<mapsto> Text (value target))),
      onResetForm = (\<lambda>current. form)\<rparr>"

datatype form_call = InputChange target | ResetForm

fun form_invoke ::
  "'u useForm_result \<Rightarrow> form_call \<Rightarrow> (string \<rightharpoonup> 'u unknown) \<Rightarrow> (string \<rightharpoonup> 'u unknown)" where
  "form_invoke r (InputChange target) = onInputChange r target"
| "form_invoke r ResetForm = onResetForm r"

definition form_step ::
  "(string \<rightharpoonup> 'u unknown) \<Rightarrow> (string \<rightharpoonup> 'u unknown) option \<Rightarrow> form_call
     \<Rightarrow> (string \<rightharpoonup> 'u unknown) option" where
  "form_step form cell c = (let r = useForm form cell in Some (form_invoke r c (formState r)))"

text \<open>A call that stays within a set of keys: a reset, or a change of an input so named.\<close>

fun call_name_in :: "string set \<Rightarrow> form_call \<Rightarrow> bool" where
  "call_name_in K (InputChange t) = (name t \<in> K)"
| "call_name_in K ResetForm = True"

definition formState_after ::
  "(string \<rightharpoonup> 'u unknown) \<Rightarrow> form_call list \<Rightarrow> (string \<rightharpoonup> 'u unknown)" where
  "formState_after form cs = formState (useForm form (foldl (form_step form) None cs))"

section \<open>JSON values\<close>

text \<open>
  The value of a JSON text, as a tree. A number and a string keep the characters they
  are written with (a number its literal, a string what stands between its quotes,
  escapes included); what they denote is computed where the code looks at it: whether
  a number is zero (\<open>zero_literal\<close>) and the code units of a string (\<open>code_units\<close>).
  \<open>JNull\<close> is JavaScript's \<open>null\<close>.
\<close>

datatype json =
  JNull | JBool bool | JNumber string | JString string
  | JArray "json list" | JObject "(string \<times> json) list"

text \<open>
  A number literal is a sign, digits with a decimal point somewhere, and an exponent
  of ten: the digits \<open>d\<close>, read without the point, times ten to the power \<open>x\<close>, the
  exponent less the number of digits after the point. The double it denotes is zero
  when \<open>d\<close> is zero, and when the value is so small that it is rounded to zero: at
  most \<open>2^-1075\<close>, half of the least positive double.
\<close>

definition digit_value :: "char \<Rightarrow> int" where
  "digit_value c = of_char c - 48"

definition decimal :: "string \<Rightarrow> int" where
  "decimal ds = foldl (\<lambda>n c. 10 * n + digit_value c) 0 ds"

definition zero_literal :: "string \<Rightarrow> bool" where
  "zero_literal l =
     (let body = (case l of [] \<Rightarrow> l | c # r \<Rightarrow> if c = CHR ''-'' then r else l);
          mantissa = takeWhile (\<lambda>c. c \<noteq> CHR ''e'' \<and> c \<noteq> CHR ''E'') body;
          exponent = drop (Suc (length mantissa)) body;
          whole = takeWhile (\<lambda>c. c \<noteq> CHR ''.'') mantissa;
          fraction = drop (Suc (length whole)) mantissa;
          d = decimal (whole @ fraction);
          x = (case exponent of
                 [] \<Rightarrow> 0
               | c # r \<Rightarrow>
                   if c = CHR ''-'' then - decimal r
                   else if c = CHR ''+'' then decimal r
                   else decimal exponent)
              - int (length fraction)
      in d = 0 \<or> (x < 0 \<and> d * 2 ^ 1075 \<le> 10 ^ nat (- x)))"

text \<open>
  Truthiness, as \<open>if (v)\<close>, \<open>!v\<close> and \<open>v || w\<close> test it: \<open>null\<close>, \<open>false\<close>, a zero
  and the empty string are falsy, every array and object is truthy.
\<close>

fun truthy :: "json \<Rightarrow> bool" where
  "truthy JNull = False"
| "truthy (JBool b) = b"
| "truthy (JNumber l) = (\<not> zero_literal l)"
| "truthy (JString b) = (b \<noteq> [])"
| "truthy (JArray vs) = True"
| "truthy (JObject ms) = True"

text \<open>
  The UTF-16 code units of a string, from what stands between its quotes: an escape
  is the unit it names, and any other character is its own.
\<close>

definition hex_value :: "char \<Rightarrow> nat" where
  "hex_value c =
     (let n = of_char c in
      if 48 \<le> n \<and> n \<le> 57 then n - 48 else if 97 \<le> n \<and> n \<le> 102 then n - 87 else n - 55)"

definition escape_unit :: "char \<Rightarrow> nat" where
  "escape_unit e =
     (if e = CHR ''b'' then 8 else if e = CHR ''f'' then 12 else if e = CHR ''n'' then 10
      else if e = CHR ''r'' then 13 else if e = CHR ''t'' then 9 else of_char e)"

fun code_units :: "string \<Rightarrow> nat list" where
  "code_units [] = []"
| "code_units (c # cs) =
     (if c = CHR 0x5C then
        (case cs of
           [] \<Rightarrow> []
         | e # r \<Rightarrow>
             if e = CHR ''u''
             then foldl (\<lambda>n h. 16 * n + hex_value h) 0 (take 4 r) # code_units (drop 4 r)
             else escape_unit e # code_units r)
      else of_char c # code_units cs)"

text \<open>
  A thrown value is an instance of \<open>Error\<close>, with its message, or something else.
\<close>

datatype thrown = Error string | NotAnError

section \<open>useFetchRickAndMorty\<close>

text \<open>
  \<^verbatim>\<open>
  export const useFetchRickAndMorty = <T>({
    url,
    queryKey,
    staleTime = 1000 * 60 * 5, // 5 minutes
    gcTime = 1000 * 60 * 30, // 30 minutes
    retry = 3,
    retryDelay = 1000
  }: QueryConfig): QueryResponse<T> => {
    const query = useQuery<T>({
      queryKey: queryKey ?? [url],
      queryFn: async () => { ... },
      staleTime,
      gcTime,
      retry,
      retryDelay,
      enabled: !!url,
      refetchOnWindowFocus: false
    });
    return {
      data: query.data ?? null,
      isLoading: query.isLoading,
      haveError: query.isError,
      error: query.error
    };
  }
  \<close>
  \<open>useQuery\<close> belongs to the query library: the model has the options the hook hands
  to it (\<open>useQuery_options\<close>) and what the hook makes of the result it gets back
  (\<open>QueryResponse_of\<close>). A string is falsy exactly when it is empty.
\<close>

datatype retry_value = Attempts int | Always bool

record 'u QueryConfig =
  url :: string
  queryKey :: "'u unknown list option"
  staleTime :: "int option"
  gcTime :: "int option"
  retry :: "retry_value option"
  retryDelay :: "int option"

record 'u UseQueryOptions =
  queryKey :: "'u unknown list"
  staleTime :: int
  gcTime :: int
  retry :: retry_value
  retryDelay :: int
  enabled :: bool
  refetchOnWindowFocus :: bool

definition useQuery_options :: "'u QueryConfig \<Rightarrow> 'u UseQueryOptions" where
  "useQuery_options config =
     \<lparr>queryKey = (case QueryConfig.queryKey config of None \<Rightarrow> [Text (url config)] | Some k \<Rightarrow> k),
      staleTime = default_param (1000 * 60 * 5) (QueryConfig.staleTime config),
      gcTime = default_param (1000 * 60 * 30) (QueryConfig.gcTime config),
      retry = default_param (Attempts 3) (QueryConfig.retry config),
      retryDelay = default_param 1000 (QueryConfig.retryDelay config),
      enabled = (url config \<noteq> []),
      refetchOnWindowFocus = False\<rparr>"

text \<open>
  What the query library hands back to \<open>useFetchRickAndMorty\<close>, and what the hook
  returns: \<open>query.data\<close> is \<open>undefined\<close> (\<open>None\<close>) or a value, and \<open>??\<close> replaces
  \<open>undefined\<close> and \<open>null\<close> by \<open>null\<close>.
\<close>

record UseQueryResult =
  data :: "json option"
  isLoading :: bool
  isError :: bool
  error :: "thrown option"

record QueryResponse =
  data :: json
  isLoading :: bool
  haveError :: bool
  error :: "thrown option"

definition QueryResponse_of :: "UseQueryResult \<Rightarrow> QueryResponse" where
  "QueryResponse_of query =
     \<lparr>data = (case UseQueryResult.data query of None \<Rightarrow> JNull | Some v \<Rightarrow> v),
      isLoading = UseQueryResult.isLoading query,
      haveError = isError query,
      error = UseQueryResult.error query\<rparr>"

section \<open>useFetch\<close>

text \<open>
  \<^verbatim>\<open>
  interface State<T> {
    data: T | null;
    loading: boolean;
    hasError: boolean;
    error: string | null;
  }
  export const __localCache: Record<string, any> = {};
  \<close>
  The data of a state is a JSON value, \<open>JNull\<close> when there is none. The cache maps
  a URL to the value stored under it; the properties an object inherits are not keys
  of the model.
\<close>

record State =
  data :: json
  loading :: bool
  hasError :: bool
  error :: "string option"

text \<open>
  What \<open>fetch(url)\<close> and \<open>resp.json()\<close> come to is the environment's: a request is
  rejected with a thrown value, or it is answered with a status and a body whose
  reading as JSON gives a value or throws. \<open>resp.ok\<close> is true for a status from 200 to
  299.
\<close>

record Response =
  status :: nat
  json :: "thrown + json"

definition ok :: "Response \<Rightarrow> bool" where
  "ok resp = (200 \<le> status resp \<and> status resp \<le> 299)"

datatype fetch_result = Rejected thrown | Answered Response

text \<open>The decimal digits of a status, as a template literal writes the number.\<close>

function toString :: "nat \<Rightarrow> string" where
  "toString n =
     (if n < 10 then [''0123456789'' ! n]
      else toString (n div 10) @ [''0123456789'' ! (n mod 10)])"
  by pat_completeness auto
termination
  by (relation "measure (\<lambda>n. n)") auto

declare toString.simps [simp del]

text \<open>
  One mounted component that uses the hook is a \<open>hook_instance\<close>: the cell of its
  \<open>useState\<close>, whether it is still mounted (React drops a \<open>setState\<close> on a component
  that is not), the URL of its latest render (the effect's dependency), the variable
  \<open>isMounted\<close> of every run of the effect, oldest first, and the calls of \<open>fetchData\<close>
  that wait for their response. A waiting call holds the values of its two
  parameters. What all instances share is the \<open>page\<close>: the cache, and the requests
  sent so far.
\<close>

record fetchData_call =
  isMounted_param :: bool
  url_param :: string

record hook_instance =
  state :: State
  alive :: bool
  deps :: string
  isMounted_vars :: "bool list"
  awaiting :: "fetchData_call list"

record page =
  localCache :: "string \<rightharpoonup> json"
  requests :: "string list"

definition setState :: "State \<Rightarrow> hook_instance \<Rightarrow> hook_instance" where
  "setState s h = (if alive h then h\<lparr>state := s\<rparr> else h)"

definition setLoadinState :: "hook_instance \<Rightarrow> hook_instance" where
  "setLoadinState h =
     setState \<lparr>data = JNull, loading = True, hasError = False, error = None\<rparr> h"

text \<open>
  \<^verbatim>\<open>
  const fetchData = async (isMounted: boolean,url:string) => {
    try {
      setLoadinState();
      if(__localCache[url]){
        setState({ data: __localCache[url], loading: false, hasError: false, error: null });
        return;
      }
      const resp = await fetch(url);
  \<close>
  The call runs to its first \<open>await\<close>. \<open>__localCache[url]\<close> is \<open>undefined\<close>, which
  is falsy, when the cache has no such key. On a truthy entry the call returns;
  otherwise it sends the request and waits (\<open>await_fetch\<close>), keeping the values of
  its parameters.
\<close>

definition await_fetch :: "bool \<Rightarrow> string \<Rightarrow> page \<times> hook_instance \<Rightarrow> page \<times> hook_instance" where
  "await_fetch = (\<lambda>isMounted url (p, h).
     (p\<lparr>requests := requests p @ [url]\<rparr>,
      h\<lparr>awaiting := awaiting h @ [\<lparr>isMounted_param = isMounted, url_param = url\<rparr>]\<rparr>))"

definition fetchData :: "bool \<Rightarrow> string \<Rightarrow> page \<times> hook_instance \<Rightarrow> page \<times> hook_instance" where
  "fetchData = (\<lambda>isMounted url (p, h).
     let h1 = setLoadinState h in
     case localCache p url of
       None \<Rightarrow> await_fetch isMounted url (p, h1)
     | Some cached \<Rightarrow>
         if truthy cached
         then (p, setState \<lparr>data = cached, loading = False, hasError = False, error = None\<rparr> h1)
         else await_fetch isMounted url (p, h1))"

text \<open>
  \<^verbatim>\<open>
      if (!resp.ok) {
        throw new Error(`HTTP error! status: ${resp.status}`);
      }
      const data = await resp.json();
      if (isMounted) {
        setState({ data: data, loading: false, hasError: false, error: null });
      }
      //Save in cache
      __localCache[url] = data;
    } catch (error) {
      if (isMounted) {
        setState({ data: null, loading: false, hasError: true,
          error: error instanceof Error ? error.message : 'An error occurred' });
      }
    }
  };
  \<close>
  The rest of the call, once the request has settled. Nothing is read or written
  between the two \<open>await\<close>s, so they are one step. \<open>fetchData_try\<close> is the \<open>try\<close>
  block, with what it throws on the left; \<open>fetchData_resume\<close> adds the \<open>catch\<close>, and
  what would be thrown out of the call stays on the left.
\<close>

definition fetchData_try ::
  "fetchData_call \<Rightarrow> fetch_result \<Rightarrow> page \<times> hook_instance \<Rightarrow> thrown + page \<times> hook_instance" where
  "fetchData_try call result = (\<lambda>(p, h).
     case result of
       Rejected e \<Rightarrow> Inl e
     | Answered resp \<Rightarrow>
         if \<not> ok resp then Inl (Error (''HTTP error! status: '' @ toString (status resp)))
         else
           (case json resp of
              Inl e \<Rightarrow> Inl e
            | Inr d \<Rightarrow>
                Inr (p\<lparr>localCache := (localCache p)(url_param call \<mapsto> d)\<rparr>,
                     if isMounted_param call
                     then setState \<lparr>data = d, loading = False, hasError = False, error = None\<rparr> h
                     else h)))"

definition fetchData_resume ::
  "fetchData_call \<Rightarrow> fetch_result \<Rightarrow> page \<times> hook_instance \<Rightarrow> thrown + page \<times> hook_instance" where
  "fetchData_resume call result = (\<lambda>(p, h).
     case fetchData_try call result (p, h) of
       Inr w \<Rightarrow> Inr w
     | Inl e \<Rightarrow>
         Inr (p,
              if isMounted_param call
              then setState
                     \<lparr>data = JNull, loading = False, hasError = True,
                      error = Some (case e of Error message \<Rightarrow> message
                                    | NotAnError \<Rightarrow> ''An error occurred'')\<rparr> h
              else h))"

text \<open>
  \<^verbatim>\<open>
  useEffect(() => {
    let isMounted = true;
    fetchData(isMounted,url);
    return () => {
      isMounted = false;
    };
  }, [url]);
  \<close>
  A run of the effect declares its variable and calls \<open>fetchData\<close> with the
  variable's value; its cleanup assigns to the variable. The first render starts from
  the initial state and runs the effect; a later render runs the cleanup and the
  effect again when the URL differs from the one before; unmounting runs the cleanup.
\<close>

definition effect :: "string \<Rightarrow> page \<times> hook_instance \<Rightarrow> page \<times> hook_instance" where
  "effect u = (\<lambda>(p, h).
     let isMounted = True in
     fetchData isMounted u (p, h\<lparr>isMounted_vars := isMounted_vars h @ [isMounted]\<rparr>))"

definition cleanup :: "hook_instance \<Rightarrow> hook_instance" where
  "cleanup h = h\<lparr>isMounted_vars := (isMounted_vars h)[length (isMounted_vars h) - 1 := False]\<rparr>"

definition useFetch_mount :: "string \<Rightarrow> page \<Rightarrow> page \<times> hook_instance" where
  "useFetch_mount u p =
     effect u
       (p, \<lparr>state = \<lparr>data = JNull, loading = True, hasError = False, error = None\<rparr>,
            alive = True, deps = u, isMounted_vars = [], awaiting = []\<rparr>)"

definition useFetch_render :: "string \<Rightarrow> page \<times> hook_instance \<Rightarrow> page \<times> hook_instance" where
  "useFetch_render u = (\<lambda>(p, h).
     if alive h \<and> u \<noteq> deps h then effect u (p, (cleanup h)\<lparr>deps := u\<rparr>) else (p, h))"

definition useFetch_unmount :: "page \<times> hook_instance \<Rightarrow> page \<times> hook_instance" where
  "useFetch_unmount = (\<lambda>(p, h). if alive h then (p, (cleanup h)\<lparr>alive := False\<rparr>) else (p, h))"

text \<open>
  The request of the \<open>k\<close>-th waiting call settles. A failure that left the call
  would be a rejected promise that nobody handles: it would change neither the page
  nor the instance.
\<close>

definition useFetch_settle :: "nat \<Rightarrow> fetch_result \<Rightarrow> page \<times> hook_instance \<Rightarrow> page \<times> hook_instance" where
  "useFetch_settle k result = (\<lambda>(p, h).
     if k < length (awaiting h) then
       (let rest = h\<lparr>awaiting := take k (awaiting h) @ drop (Suc k) (awaiting h)\<rparr> in
        case fetchData_resume (awaiting h ! k) result (p, rest) of
          Inr w \<Rightarrow> w
        | Inl e \<Rightarrow> (p, rest))
     else (p, h))"

datatype event = Render string | Unmount | Settle nat fetch_result

fun useFetch_event :: "page \<times> hook_instance \<Rightarrow> event \<Rightarrow> page \<times> hook_instance" where
  "useFetch_event w (Render u) = useFetch_render u w"
| "useFetch_event w Unmount = useFetch_unmount w"
| "useFetch_event w (Settle k result) = useFetch_settle k result w"

definition useFetch_run :: "string \<Rightarrow> page \<Rightarrow> event list \<Rightarrow> page \<times> hook_instance" where
  "useFetch_run u p evs = foldl useFetch_event (useFetch_mount u p) evs"

section \<open>JSON.parse\<close>

text \<open>
  The platform's \<open>JSON.parse\<close>, which \<open>useTodo\<close> reads its storage with: a parser of
  the JSON grammar (ECMA-404). White space is a space, a tab, a line feed or a
  carriage return. A string has no raw control character; an escape in it is a
  backslash and then a quote, a backslash, a slash, one of the letters b, f, n, r, t,
  or the letter u and four hexadecimal digits. A number is an optional minus, an
  integer part without a leading zero, an optional fraction and an optional exponent.
  Each parser returns what it read and the rest of the text.
\<close>

definition is_ws :: "char \<Rightarrow> bool" where
  "is_ws c = (c = CHR 0x20 \<or> c = CHR 0x09 \<or> c = CHR 0x0A \<or> c = CHR 0x0D)"

definition skip_ws :: "string \<Rightarrow> string" where
  "skip_ws s = dropWhile is_ws s"

definition is_digit :: "char \<Rightarrow> bool" where
  "is_digit c = (c \<in> set ''0123456789'')"

definition is_hex :: "char \<Rightarrow> bool" where
  "is_hex c = (c \<in> set ''0123456789abcdefABCDEF'')"

fun string_body :: "string \<Rightarrow> (string \<times> string) option" where
  "string_body [] = None"
| "string_body (c # cs) =
     (if c = CHR 0x22 then Some ([], cs)
      else if c = CHR 0x5C then
        (case cs of
           [] \<Rightarrow> None
         | e # r \<Rightarrow>
             if e \<in> set [CHR 0x22, CHR 0x5C, CHR ''/'', CHR ''b'', CHR ''f'', CHR ''n'', CHR ''r'', CHR ''t'']
             then map_option (\<lambda>(b, t). (c # e # b, t)) (string_body r)
             else if e = CHR ''u'' \<and> 4 \<le> length r \<and> list_all is_hex (take 4 r)
             then map_option (\<lambda>(b, t). (c # e # take 4 r @ b, t)) (string_body (drop 4 r))
             else None)
      else if of_char c < (0x20 :: nat) then None
      else map_option (\<lambda>(b, t). (c # b, t)) (string_body cs))"

definition digits :: "string \<Rightarrow> (string \<times> string) option" where
  "digits s = (if takeWhile is_digit s = [] then None
               else Some (takeWhile is_digit s, dropWhile is_digit s))"

definition number_int :: "string \<Rightarrow> (string \<times> string) option" where
  "number_int s =
     (case s of
        [] \<Rightarrow> None
      | c # r \<Rightarrow> if c = CHR ''0'' then Some ([c], r) else digits s)"

definition number_frac :: "string \<Rightarrow> (string \<times> string) option" where
  "number_frac s =
     (case s of
        [] \<Rightarrow> Some ([], s)
      | c # r \<Rightarrow> if c = CHR ''.'' then map_option (\<lambda>(ds, t). (c # ds, t)) (digits r)
                else Some ([], s))"

definition number_exp :: "string \<Rightarrow> (string \<times> string) option" where
  "number_exp s =
     (case s of
        [] \<Rightarrow> Some ([], s)
      | c # r \<Rightarrow>
          if c = CHR ''e'' \<or> c = CHR ''E'' then
            (case r of
               [] \<Rightarrow> None
             | g # t \<Rightarrow> if g = CHR ''+'' \<or> g = CHR ''-''
                        then map_option (\<lambda>(ds, u). (c # g # ds, u)) (digits t)
                        else map_option (\<lambda>(ds, u). (c # ds, u)) (digits r))
          else Some ([], s))"

definition number :: "string \<Rightarrow> (string \<times> string) option" where
  "number s =
     (let (sign, s0) = (case s of [] \<Rightarrow> ([], s) | c # r \<Rightarrow> if c = CHR ''-'' then ([c], r) else ([], s)) in
      case number_int s0 of
        None \<Rightarrow> None
      | Some (i, s1) \<Rightarrow>
          (case number_frac s1 of
             None \<Rightarrow> None
           | Some (f, s2) \<Rightarrow>
               (case number_exp s2 of
                  None \<Rightarrow> None
                | Some (e, s3) \<Rightarrow> Some (sign @ i @ f @ e, s3))))"

text \<open>A value that is a string, one of the three literal names, or a number.\<close>

definition scalar :: "string \<Rightarrow> (json \<times> string) option" where
  "scalar s =
     (case s of
        [] \<Rightarrow> None
      | c # r \<Rightarrow>
          if c = CHR 0x22 then map_option (\<lambda>(b, t). (JString b, t)) (string_body r)
          else if take 4 s = ''true'' then Some (JBool True, drop 4 s)
          else if take 5 s = ''false'' then Some (JBool False, drop 5 s)
          else if take 4 s = ''null'' then Some (JNull, drop 4 s)
          else map_option (\<lambda>(l, t). (JNumber l, t)) (number s))"

text \<open>
  A value, the elements of an array after its \<open>[\<close> and the members of an object after
  its \<open>{\<close> call each other; the first argument bounds the depth of the calls. A
  bound above the length of the text is never reached (\<open>json_value_fuel\<close> below).
\<close>

fun json_value :: "nat \<Rightarrow> string \<Rightarrow> (json \<times> string) option"
  and elements :: "nat \<Rightarrow> string \<Rightarrow> (json list \<times> string) option"
  and members :: "nat \<Rightarrow> string \<Rightarrow> ((string \<times> json) list \<times> string) option"
where
  "json_value 0 s = None"
| "json_value (Suc n) s =
     (case skip_ws s of
        [] \<Rightarrow> None
      | c # r \<Rightarrow>
          if c = CHR ''['' then
            (case skip_ws r of
               [] \<Rightarrow> None
             | d # t \<Rightarrow> if d = CHR '']'' then Some (JArray [], t)
                        else map_option (\<lambda>(vs, u). (JArray vs, u)) (elements n r))
          else if c = CHR ''{'' then
            (case skip_ws r of
               [] \<Rightarrow> None
             | d # t \<Rightarrow> if d = CHR ''}'' then Some (JObject [], t)
                        else map_option (\<lambda>(ms, u). (JObject ms, u)) (members n r))
          else scalar (c # r))"
| "elements 0 s = None"
| "elements (Suc n) s =
     (case json_value n s of
        None \<Rightarrow> None
      | Some (v, r) \<Rightarrow>
          (case skip_ws r of
             [] \<Rightarrow> None
           | c # t \<Rightarrow> if c = CHR '','' then map_option (\<lambda>(vs, u). (v # vs, u)) (elements n t)
                      else if c = CHR '']'' then Some ([v], t)
                      else None))"
| "members 0 s = None"
| "members (Suc n) s =
     (case skip_ws s of
        [] \<Rightarrow> None
      | q # r \<Rightarrow>
          if q \<noteq> CHR 0x22 then None
          else
            (case string_body r of
               None \<Rightarrow> None
             | Some (k, r1) \<Rightarrow>
                 (case skip_ws r1 of
                    [] \<Rightarrow> None
                  | c # r2 \<Rightarrow>
                      if c \<noteq> CHR '':'' then None
                      else
                        (case json_value n r2 of
                           None \<Rightarrow> None
                         | Some (v, r3) \<Rightarrow>
                             (case skip_ws r3 of
                                [] \<Rightarrow> None
                              | d # r4 \<Rightarrow>
                                  if d = CHR '','' then map_option (\<lambda>(ms, u). ((k, v) # ms, u)) (members n r4)
                                  else if d = CHR ''}'' then Some ([(k, v)], r4)
                                  else None)))))"

text \<open>
  \<open>JSON.parse\<close> throws a \<open>SyntaxError\<close> unless the text is one value with nothing but
  white space around it. \<open>TypeError\<close> is the other error that \<open>useTodo\<close> can throw.
\<close>

datatype exn = SyntaxError | TypeError

definition JSON_parse :: "string \<Rightarrow> exn + json" where
  "JSON_parse text =
     (case json_value (Suc (length text)) text of
        None \<Rightarrow> Inl SyntaxError
      | Some (v, r) \<Rightarrow> if skip_ws r = [] then Inr v else Inl SyntaxError)"

section \<open>useTodo\<close>

text \<open>
  \<^verbatim>\<open>
  const init = () => {
    return JSON.parse(localStorage.getItem("todos") || "[]");
  };
  export const useTodo = () => {
    const [todos, dispatch] = useReducer(todoReducer, initialState, init);
    ...
    return {
      todos,
      onNewTodo,
      onDeleteTodo,
      onToggleTodo,
      todosCount: todos.length,
      pendingTodosCount: todos.filter(todo => !todo.done).length,
      completedTodosCount: todos.filter(todo => todo.done).length,
    };
  };
  \<close>
  The storage maps a key to its text; \<open>getItem\<close> gives \<open>null\<close> (\<open>None\<close>) for a key
  that is absent. \<open>||\<close> takes its right operand when the left one is falsy: \<open>null\<close>
  or the empty text. \<open>useReducer\<close> with a third argument starts from what that
  function returns for the second (\<open>useReducer_state\<close>), which \<open>init\<close> does not look
  at; what \<open>init\<close> throws leaves the hook.
\<close>

definition getItem :: "(string \<rightharpoonup> string) \<Rightarrow> string \<Rightarrow> string option" where
  "getItem localStorage key = localStorage key"

definition init :: "(string \<rightharpoonup> string) \<Rightarrow> exn + json" where
  "init localStorage =
     JSON_parse
       (case getItem localStorage ''todos'' of
          None \<Rightarrow> ''[]''
        | Some text \<Rightarrow> if text = [] then ''[]'' else text)"

definition useReducer_state :: "('i \<Rightarrow> exn + 's) \<Rightarrow> 'i \<Rightarrow> exn + 's" where
  "useReducer_state initializer initialArg = initializer initialArg"

text \<open>
  The rest of the first render reads the state as an array of todos, whatever
  \<open>JSON.parse\<close> gave. \<open>value.key\<close> on an object that \<open>JSON.parse\<close> made is the member
  of that name, the last one when the name is repeated, and \<open>undefined\<close> (\<open>None\<close>)
  when there is none.
\<close>

definition get_property :: "(string \<times> json) list \<Rightarrow> string \<Rightarrow> json option" where
  "get_property ms key = map_of (rev (map (\<lambda>(k, v). (code_units k, v)) ms)) (map of_char key)"

text \<open>
  \<open>todo.done\<close>, as a condition: reading a property of \<open>null\<close> throws a \<open>TypeError\<close>; a
  boolean, a number, a string and an array have no \<open>done\<close>, and \<open>undefined\<close> is falsy.
\<close>

fun todo_done :: "json \<Rightarrow> exn + bool" where
  "todo_done JNull = Inl TypeError"
| "todo_done (JObject ms) =
     Inr (case get_property ms ''done'' of None \<Rightarrow> False | Some v \<Rightarrow> truthy v)"
| "todo_done v = Inr False"

text \<open>\<open>xs.filter(f)\<close>, for an \<open>f\<close> that may throw: what \<open>f\<close> throws first leaves the call.\<close>

fun array_filter :: "('a \<Rightarrow> exn + bool) \<Rightarrow> 'a list \<Rightarrow> exn + 'a list" where
  "array_filter f [] = Inr []"
| "array_filter f (x # xs) =
     (case f x of
        Inl e \<Rightarrow> Inl e
      | Inr keep \<Rightarrow>
          (case array_filter f xs of
             Inl e \<Rightarrow> Inl e
           | Inr ys \<Rightarrow> Inr (if keep then x # ys else ys)))"

text \<open>
  What the first render returns, the three callbacks left out. Only an array has a
  \<open>filter\<close> to call: \<open>null.length\<close>, and \<open>todos.filter(...)\<close> for a boolean, a
  number, a string or an object, throw a \<open>TypeError\<close>. The effect that writes the
  list back to the storage runs after a render that has returned.
\<close>

record useTodo_result =
  todos' :: json
  todosCount :: nat
  pendingTodosCount :: nat
  completedTodosCount :: nat

definition useTodo :: "(string \<rightharpoonup> string) \<Rightarrow> exn + useTodo_result" where
  "useTodo localStorage =
     (case useReducer_state (\<lambda>arg. init localStorage) initialState of
        Inl e \<Rightarrow> Inl e
      | Inr todos \<Rightarrow>
          (case todos of
             JArray xs \<Rightarrow>
               (case array_filter (\<lambda>todo. map_sum id Not (todo_done todo)) xs of
                  Inl e \<Rightarrow> Inl e
                | Inr pending \<Rightarrow>
                    (case array_filter todo_done xs of
                       Inl e \<Rightarrow> Inl e
                     | Inr completed \<Rightarrow>
                         Inr \<lparr>todos' = todos, todosCount = length xs,
                              pendingTodosCount = length pending,
                              completedTodosCount = length completed\<rparr>))
           | _ \<Rightarrow> Inl TypeError))"

chapter \<open>What the hooks do\<close>

section \<open>Numbers\<close>

lemma bitlen_0: "bitlen 0 = 0"
  by (simp add: bitlen.simps [of 0])

lemma bitlen_pos: "n \<noteq> 0 \<Longrightarrow> bitlen n = Suc (bitlen (n div 2))"
  by (simp add: bitlen.simps [of n])

lemma bitlen_le_iff: "bitlen n \<le> b \<longleftrightarrow> n < 2 ^ b"
proof (induction b arbitrary: n)
  case 0
  show ?case by (cases "n = 0") (simp_all add: bitlen_0 bitlen_pos)
next
  case (Suc b)
  show ?case
  proof (cases "n = 0")
    case True
    then show ?thesis by (simp add: bitlen_0)
  next
    case False
    then have "bitlen n \<le> Suc b \<longleftrightarrow> bitlen (n div 2) \<le> b"
      by (simp add: bitlen_pos)
    also have "\<dots> \<longleftrightarrow> n div 2 < 2 ^ b" by (rule Suc.IH)
    also have "\<dots> \<longleftrightarrow> n < 2 ^ Suc b" by (simp add: div_less_iff_less_mult mult.commute)
    finally show ?thesis .
  qed
qed

lemma bitlen_eq: "2 ^ b \<le> n \<Longrightarrow> n < 2 ^ Suc b \<Longrightarrow> bitlen n = Suc b"
  using bitlen_le_iff [of n b] bitlen_le_iff [of n "Suc b"] by simp

text \<open>A value of at most 53 significant bits, below the overflow bound, is not changed.\<close>

lemma round_double_multiple:
  assumes "2 ^ (bitlen (nat \<bar>k\<bar>) - 53) dvd nat \<bar>k\<bar>" and "nat \<bar>k\<bar> < 2 ^ 2098"
  shows "round_double k = Finite k"
proof -
  define a where "a = nat \<bar>k\<bar>"
  define s where "s = bitlen a - 53"
  from assms have d: "2 ^ s dvd a" and lt: "\<not> 2 ^ 2098 \<le> a" by (simp_all add: a_def s_def)
  from d have r: "a mod 2 ^ s = 0" and q: "a div 2 ^ s * 2 ^ s = a" by simp_all
  have pos: "(0::nat) < 2 ^ s" by simp
  have m: "(if 2 ^ s < 2 * (a mod 2 ^ s) \<or> (2 * (a mod 2 ^ s) = 2 ^ s \<and> odd (a div 2 ^ s))
            then Suc (a div 2 ^ s) else a div 2 ^ s) = a div 2 ^ s"
    unfolding r using pos by simp
  have k: "(if k < 0 then - int a else int a) = k" by (simp add: a_def)
  show ?thesis
    unfolding round_double_def a_def [symmetric] Let_def s_def [symmetric] m q k
    using lt by (simp only: if_False)
qed

text \<open>Integers below \<open>2^53\<close> in magnitude are doubles, and their sums and differences
  that stay below it are exact.\<close>

lemma Number_exact:
  assumes "\<bar>n\<bar> < 2 ^ 53"
  shows "Number n = Finite (n * 2 ^ 1074)"
proof -
  have a: "nat \<bar>n * 2 ^ 1074\<bar> = nat \<bar>n\<bar> * 2 ^ 1074"
    by (simp add: abs_mult nat_mult_distrib del: power_numeral)
  from assms have "nat \<bar>n\<bar> < 2 ^ 53"
    by (metis nat_less_iff abs_ge_zero of_nat_numeral of_nat_power)
  then have "nat \<bar>n\<bar> * 2 ^ 1074 < 2 ^ 53 * 2 ^ 1074"
    by (rule mult_strict_right_mono) (rule zero_less_power, simp)
  moreover have "(2::nat) ^ 53 * 2 ^ 1074 = 2 ^ (53 + 1074)" by (rule power_add [symmetric])
  moreover have "(53::nat) + 1074 = 1127" by simp
  ultimately have lt: "nat \<bar>n\<bar> * 2 ^ 1074 < 2 ^ 1127" by (simp only:)
  then have "bitlen (nat \<bar>n\<bar> * 2 ^ 1074) \<le> 1127" by (simp only: bitlen_le_iff)
  then have "bitlen (nat \<bar>n\<bar> * 2 ^ 1074) - 53 \<le> 1074" by simp
  then have "(2::nat) ^ (bitlen (nat \<bar>n\<bar> * 2 ^ 1074) - 53) dvd 2 ^ 1074"
    by (rule le_imp_power_dvd)
  then have d: "2 ^ (bitlen (nat \<bar>n\<bar> * 2 ^ 1074) - 53) dvd nat \<bar>n\<bar> * 2 ^ 1074"
    by (rule dvd_mult)
  have "(2::nat) ^ 1127 < 2 ^ 2098" by (rule power_strict_increasing) simp_all
  with lt have "nat \<bar>n\<bar> * 2 ^ 1074 < 2 ^ 2098" by (rule less_trans)
  with d show ?thesis
    unfolding Number_def by (intro round_double_multiple) (simp_all only: a)
qed

lemma number_add_Number:
  assumes "\<bar>x\<bar> < 2 ^ 53" and "\<bar>y\<bar> < 2 ^ 53" and "\<bar>x + y\<bar> < 2 ^ 53"
  shows "number_add (Number x) (Number y) = Number (x + y)"
proof -
  have "number_add (Number x) (Number y) = round_double (x * 2 ^ 1074 + y * 2 ^ 1074)"
    by (simp add: Number_exact assms del: power_numeral)
  also have "x * 2 ^ 1074 + y * 2 ^ 1074 = (x + y) * 2 ^ 1074"
    by (simp add: distrib_right del: power_numeral)
  finally show ?thesis by (simp add: Number_def)
qed

lemma number_neg_Number:
  assumes "\<bar>y\<bar> < 2 ^ 53" and "y \<noteq> 0"
  shows "number_neg (Number y) = Number (- y)"
  using assms by (simp add: Number_exact del: power_numeral)

lemma number_sub_Number:
  assumes "\<bar>x\<bar> < 2 ^ 53" and "\<bar>y\<bar> < 2 ^ 53" and "\<bar>x - y\<bar> < 2 ^ 53"
  shows "number_sub (Number x) (Number y) = Number (x - y)"
proof (cases "y = 0")
  case True
  then show ?thesis
    using assms(1) by (simp add: number_sub_def Number_exact del: power_numeral)
next
  case False
  with assms(2) have "number_neg (Number y) = Number (- y)" by (simp add: number_neg_Number)
  moreover from assms have "number_add (Number x) (Number (- y)) = Number (x + - y)"
    by (intro number_add_Number) simp_all
  ultimately show ?thesis by (simp add: number_sub_def)
qed

lemma Number_eq_iff:
  assumes "\<bar>x\<bar> < 2 ^ 53" and "\<bar>y\<bar> < 2 ^ 53"
  shows "Number x = Number y \<longleftrightarrow> x = y"
  using assms by (simp add: Number_exact)

text \<open>From \<open>2^53\<close> the sum is rounded: \<open>2^53 + 1\<close> is \<open>2^53\<close>.\<close>

lemma Number_2_53: "Number 9007199254740992 = Finite (2 ^ 1127)"
proof -
  have k: "(9007199254740992::int) * 2 ^ 1074 = 2 ^ 1127" by simp
  have a: "nat \<bar>2 ^ 1127 :: int\<bar> = 2 ^ 1127" by simp
  have b: "bitlen (2 ^ 1127) = Suc 1127" by (rule bitlen_eq) simp_all
  have "(2::nat) ^ 1075 dvd 2 ^ 1127" by (rule le_imp_power_dvd) simp
  then have "round_double (2 ^ 1127) = Finite (2 ^ 1127)"
    by (intro round_double_multiple) (simp_all only: a b, simp_all)
  then show ?thesis by (simp only: Number_def k)
qed

lemma number_add_2_53_1:
  "number_add (Number 9007199254740992) (Number 1) = Number 9007199254740992"
proof -
  let ?k = "2 ^ 1127 + 2 ^ 1074 :: int"
  let ?a = "2 ^ 1127 + 2 ^ 1074 :: nat"
  have a: "nat \<bar>?k\<bar> = ?a" by simp
  have b: "bitlen ?a = Suc 1127" by (rule bitlen_eq) simp_all
  have s: "Suc 1127 - 53 = 1075" by simp
  have q: "?a div 2 ^ 1075 = 2 ^ 52" by simp
  have r: "?a mod 2 ^ 1075 = 2 ^ 1074" by simp
  have "round_double ?k = Finite (2 ^ 1127)"
    unfolding round_double_def a Let_def b s q r by simp
  moreover have "number_add (Number 9007199254740992) (Number 1) = round_double ?k"
    by (simp add: Number_2_53 Number_exact)
  ultimately show ?thesis by (simp add: Number_2_53)
qed

section \<open>useCounter\<close>

lemma counter_after_Nil: "counter_after [] a = default_param (Number 10) a"
  by (simp add: counter_after_def useCounter_def useState_def Let_def)

lemma counter_after_snoc:
  "counter_after (rs @ [(a, c)]) b = invoke (useCounter a None) c (counter_after rs a)"
  by (cases "foldl (\<lambda>cell (arg, c). counter_step arg cell c) None rs")
     (cases c; simp add: counter_after_def counter_step_def useCounter_def useState_def Let_def)+

text \<open>
  Claim C6, as the code has it. The counter starts at the argument of the first
  render, or at 10 when there is none. \<open>increment\<close> puts the sum of the current value
  and the factor (1 when none is given) in its place, and \<open>decrement\<close> their
  difference, as sums and differences of doubles are: exact for integers as long as
  the operands and the result stay below \<open>2^53\<close> in magnitude. \<open>reset\<close> gives the
  argument of the render whose callback it is (10 when that render had none), whatever
  was called before: the value at creation when every render is given the same
  argument. From 10, \<open>increment()\<close>, \<open>increment(5)\<close> and \<open>decrement(3)\<close> give 13, and
  \<open>reset()\<close> then gives 10.
\<close>

theorem useCounter_arithmetic:
  "counter_after [] (Some i) = i
   \<and> counter_after [] None = Number 10
   \<and> counter_after (rs @ [(a, Increment (Some f))]) b = number_add (counter_after rs a) f
   \<and> counter_after (rs @ [(a, Increment None)]) b = number_add (counter_after rs a) (Number 1)
   \<and> counter_after (rs @ [(a, Decrement (Some f))]) b = number_sub (counter_after rs a) f
   \<and> counter_after (rs @ [(a, Decrement None)]) b = number_sub (counter_after rs a) (Number 1)
   \<and> counter_after (rs @ [(Some i, Reset)]) b = i
   \<and> counter_after (rs @ [(None, Reset)]) b = Number 10
   \<and> (\<bar>x\<bar> < 2 ^ 53 \<and> \<bar>y\<bar> < 2 ^ 53 \<and> \<bar>x + y\<bar> < 2 ^ 53 \<longrightarrow>
        number_add (Number x) (Number y) = Number (x + y))
   \<and> (\<bar>x\<bar> < 2 ^ 53 \<and> \<bar>y\<bar> < 2 ^ 53 \<and> \<bar>x - y\<bar> < 2 ^ 53 \<longrightarrow>
        number_sub (Number x) (Number y) = Number (x - y))
   \<and> counter_after
        [(None, Increment None), (None, Increment (Some (Number 5))),
         (None, Decrement (Some (Number 3)))] None = Number 13
   \<and> counter_after
        [(Some (Number 10), Increment None), (Some (Number 10), Increment (Some (Number 5))),
         (Some (Number 10), Decrement (Some (Number 3))), (Some (Number 10), Reset)]
        (Some (Number 10)) = Number 10"
proof -
  have calls: "counter_after (rs @ [(a, Increment (Some f))]) b = number_add (counter_after rs a) f"
    "counter_after (rs @ [(a, Increment None)]) b = number_add (counter_after rs a) (Number 1)"
    "counter_after (rs @ [(a, Decrement (Some f))]) b = number_sub (counter_after rs a) f"
    "counter_after (rs @ [(a, Decrement None)]) b = number_sub (counter_after rs a) (Number 1)"
    "counter_after (rs @ [(Some i, Reset)]) b = i"
    "counter_after (rs @ [(None, Reset)]) b = Number 10"
    by (simp_all add: counter_after_snoc useCounter_def default_param_def Let_def)
  have first: "counter_after [] (Some i) = i" "counter_after [] None = Number 10"
    by (simp_all add: counter_after_Nil default_param_def)
  have thirteen: "counter_after
        [(None, Increment None), (None, Increment (Some (Number 5))),
         (None, Decrement (Some (Number 3)))] None = Number 13"
    by (simp add: counter_after_def counter_step_def useCounter_def useState_def
          default_param_def Let_def number_add_Number number_sub_Number)
  have ten: "counter_after
        [(Some (Number 10), Increment None), (Some (Number 10), Increment (Some (Number 5))),
         (Some (Number 10), Decrement (Some (Number 3))), (Some (Number 10), Reset)]
        (Some (Number 10)) = Number 10"
    by (simp add: counter_after_def counter_step_def useCounter_def useState_def
          default_param_def Let_def number_add_Number number_sub_Number)
  from calls first thirteen ten number_add_Number [of x y] number_sub_Number [of x y]
  show ?thesis by blast
qed

theorem useCounter_arithmetic_witness:
  "\<bar>10 :: int\<bar> < 2 ^ 53 \<and> \<bar>1 :: int\<bar> < 2 ^ 53 \<and> \<bar>10 + 1 :: int\<bar> < 2 ^ 53
   \<and> number_add (Number 10) (Number 1) = Number 11
   \<and> \<bar>16 :: int\<bar> < 2 ^ 53 \<and> \<bar>3 :: int\<bar> < 2 ^ 53 \<and> \<bar>16 - 3 :: int\<bar> < 2 ^ 53
   \<and> number_sub (Number 16) (Number 3) = Number 13"
proof -
  have a: "\<bar>10 :: int\<bar> < 2 ^ 53 \<and> \<bar>1 :: int\<bar> < 2 ^ 53 \<and> \<bar>10 + 1 :: int\<bar> < 2 ^ 53" by simp
  have s: "\<bar>16 :: int\<bar> < 2 ^ 53 \<and> \<bar>3 :: int\<bar> < 2 ^ 53 \<and> \<bar>16 - 3 :: int\<bar> < 2 ^ 53" by simp
  from useCounter_arithmetic [where x = 10 and y = 1] a
  have "number_add (Number 10) (Number 1) = Number (10 + 1)" by blast
  moreover from useCounter_arithmetic [where x = 16 and y = 3] s
  have "number_sub (Number 16) (Number 3) = Number (16 - 3)" by blast
  ultimately show ?thesis using a s by simp
qed

text \<open>
  The claim as it was written fails in two places. A counter created with 5,
  incremented, and rendered again with 7 is reset to 7, not to the 5 of its creation:
  \<open>reset\<close> is made anew in every render, with that render's argument. And at \<open>2^53\<close>
  \<open>increment()\<close> leaves the counter where it is, since the sum is rounded.
\<close>

theorem useCounter_reset_counterexample:
  "counter_after [(Some (Number 5), Increment None), (Some (Number 7), Reset)] (Some (Number 7))
     = Number 7
   \<and> Number 7 \<noteq> Number 5
   \<and> counter_after [(Some (Number 9007199254740992), Increment None)] (Some (Number 9007199254740992))
     = Number 9007199254740992"
proof -
  have "counter_after ([(Some (Number 5), Increment None)] @ [(Some (Number 7), Reset)]) (Some (Number 7))
     = Number 7"
    by (simp only: counter_after_snoc invoke.simps)
       (simp add: useCounter_def default_param_def Let_def)
  moreover have "Number 7 \<noteq> Number 5" by (simp add: Number_eq_iff)
  moreover have "counter_after ([] @ [(Some (Number 9007199254740992), Increment None)])
      (Some (Number 9007199254740992)) = Number 9007199254740992"
    by (simp only: counter_after_snoc counter_after_Nil invoke.simps)
       (simp add: useCounter_def default_param_def Let_def number_add_2_53_1)
  ultimately show ?thesis by simp
qed

section \<open>todoReducer\<close>

lemma toggle_twice: "todoReducer (todoReducer todos (Toggle i)) (Toggle i) = todos"
  by (induction todos) simp_all

lemma toggle_absent: "i \<notin> id' ` set todos \<Longrightarrow> todoReducer todos (Toggle i) = todos"
  by (induction todos) auto

text \<open>
  Claim C9. A toggle keeps the ids and the texts of a list and negates \<open>done\<close> in
  exactly the todos that have the id, so that toggling twice with the same id gives
  the list back, whatever the list and the id; toggling once with an id that no todo
  of the list has leaves the list as it is.
\<close>

theorem toggle_involution:
  "todoReducer (todoReducer todos (Toggle i)) (Toggle i) = todos
   \<and> map id' (todoReducer todos (Toggle i)) = map id' todos
   \<and> map todo (todoReducer todos (Toggle i)) = map todo todos
   \<and> map done (todoReducer todos (Toggle i))
       = map (\<lambda>t. if id' t = i then \<not> done t else done t) todos
   \<and> (i \<notin> id' ` set todos \<longrightarrow> todoReducer todos (Toggle i) = todos)"
proof -
  have "map id' (todoReducer todos (Toggle i)) = map id' todos"
    and "map todo (todoReducer todos (Toggle i)) = map todo todos"
    and "map done (todoReducer todos (Toggle i))
       = map (\<lambda>t. if id' t = i then \<not> done t else done t) todos"
    by (induction todos) simp_all
  with toggle_twice [of todos i] toggle_absent [of i todos] show ?thesis by blast
qed

theorem toggle_involution_witness:
  "todoReducer (todoReducer [\<lparr>id' = 1, todo = ''a'', done = False\<rparr>, \<lparr>id' = 2, todo = ''b'', done = True\<rparr>]
      (Toggle 1)) (Toggle 1)
     = [\<lparr>id' = 1, todo = ''a'', done = False\<rparr>, \<lparr>id' = 2, todo = ''b'', done = True\<rparr>]
   \<and> map done (todoReducer [\<lparr>id' = 1, todo = ''a'', done = False\<rparr>, \<lparr>id' = 2, todo = ''b'', done = True\<rparr>]
        (Toggle 1)) = [True, True]
   \<and> map done (todoReducer [\<lparr>id' = 1, todo = ''a'', done = False\<rparr>, \<lparr>id' = 2, todo = ''b'', done = True\<rparr>]
        (Toggle 2)) = [False, False]
   \<and> 3 \<notin> id' ` set [\<lparr>id' = 1, todo = ''a'', done = False\<rparr>, \<lparr>id' = 2, todo = ''b'', done = True\<rparr>]
   \<and> todoReducer [\<lparr>id' = 1, todo = ''a'', done = False\<rparr>, \<lparr>id' = 2, todo = ''b'', done = True\<rparr>] (Toggle 3)
     = [\<lparr>id' = 1, todo = ''a'', done = False\<rparr>, \<lparr>id' = 2, todo = ''b'', done = True\<rparr>]"
proof -
  let ?L = "[\<lparr>id' = 1, todo = ''a'', done = False\<rparr>, \<lparr>id' = 2, todo = ''b'', done = True\<rparr>]"
  have absent: "3 \<notin> id' ` set ?L" by simp
  from toggle_involution [of ?L 1] have twice: "todoReducer (todoReducer ?L (Toggle 1)) (Toggle 1) = ?L"
    by (rule conjunct1)
  from toggle_involution [of ?L 1]
  have "map done (todoReducer ?L (Toggle 1)) = map (\<lambda>t. if id' t = 1 then \<not> done t else done t) ?L"
    by blast
  then have once: "map done (todoReducer ?L (Toggle 1)) = [True, True]"
    by (simp only: list.map Todo.simps) simp
  from toggle_involution [of ?L 2]
  have "map done (todoReducer ?L (Toggle 2)) = map (\<lambda>t. if id' t = 2 then \<not> done t else done t) ?L"
    by blast
  then have other: "map done (todoReducer ?L (Toggle 2)) = [False, False]"
    by (simp only: list.map Todo.simps) simp
  from toggle_involution [of ?L 3] absent have "todoReducer ?L (Toggle 3) = ?L"
    by blast
  with twice once other absent show ?thesis by blast
qed

text \<open>
  Claim C10. When several todos of a list share an id, deleting that id removes every
  one of them (no todo of the result has the id, and the todos with another id stay
  as they were, in their order), and toggling that id flips \<open>done\<close> in every one of
  them (the result has the length of the list; at each position a todo with the id
  has its flag negated and any other todo is unchanged).
\<close>

theorem reducer_duplicate_ids:
  "(\<forall>t \<in> set (todoReducer todos (Delete i)). id' t \<noteq> i)
   \<and> filter (\<lambda>t. id' t \<noteq> i) (todoReducer todos (Delete i)) = filter (\<lambda>t. id' t \<noteq> i) todos
   \<and> length (todoReducer todos (Toggle i)) = length todos
   \<and> (\<forall>k < length todos.
        todoReducer todos (Toggle i) ! k =
          (if id' (todos ! k) = i then (todos ! k)\<lparr>done := \<not> done (todos ! k)\<rparr> else todos ! k))"
  by simp

theorem reducer_duplicate_ids_witness:
  "todoReducer [\<lparr>id' = 7, todo = ''a'', done = False\<rparr>, \<lparr>id' = 8, todo = ''b'', done = False\<rparr>,
                \<lparr>id' = 7, todo = ''c'', done = True\<rparr>] (Delete 7)
     = [\<lparr>id' = 8, todo = ''b'', done = False\<rparr>]
   \<and> todoReducer [\<lparr>id' = 7, todo = ''a'', done = False\<rparr>, \<lparr>id' = 8, todo = ''b'', done = False\<rparr>,
                  \<lparr>id' = 7, todo = ''c'', done = True\<rparr>] (Toggle 7) ! 0
     = \<lparr>id' = 7, todo = ''a'', done = True\<rparr>
   \<and> todoReducer [\<lparr>id' = 7, todo = ''a'', done = False\<rparr>, \<lparr>id' = 8, todo = ''b'', done = False\<rparr>,
                  \<lparr>id' = 7, todo = ''c'', done = True\<rparr>] (Toggle 7) ! 2
     = \<lparr>id' = 7, todo = ''c'', done = False\<rparr>"
proof -
  let ?L = "[\<lparr>id' = 7, todo = ''a'', done = False\<rparr>, \<lparr>id' = 8, todo = ''b'', done = False\<rparr>,
             \<lparr>id' = 7, todo = ''c'', done = True\<rparr>]"
  note all = reducer_duplicate_ids [of ?L 7]
  have kept: "filter (\<lambda>t. id' t \<noteq> 7) ?L = [\<lparr>id' = 8, todo = ''b'', done = False\<rparr>]" by simp
  from all have gone: "\<forall>t \<in> set (todoReducer ?L (Delete 7)). id' t \<noteq> 7" by (rule conjunct1)
  from all have "filter (\<lambda>t. id' t \<noteq> 7) (todoReducer ?L (Delete 7)) = filter (\<lambda>t. id' t \<noteq> 7) ?L"
    by blast
  moreover from gone have "filter (\<lambda>t. id' t \<noteq> 7) (todoReducer ?L (Delete 7)) = todoReducer ?L (Delete 7)"
    by (simp only: filter_id_conv)
  ultimately have deleted: "todoReducer ?L (Delete 7) = [\<lparr>id' = 8, todo = ''b'', done = False\<rparr>]"
    using kept by simp
  from all have nth: "\<forall>k < length ?L. todoReducer ?L (Toggle 7) ! k =
      (if id' (?L ! k) = 7 then (?L ! k)\<lparr>done := \<not> done (?L ! k)\<rparr> else ?L ! k)"
    by blast
  have "(0::nat) < length ?L" "(2::nat) < length ?L" by simp_all
  with nth have "todoReducer ?L (Toggle 7) ! 0 = (if id' (?L ! 0) = 7 then (?L ! 0)\<lparr>done := \<not> done (?L ! 0)\<rparr> else ?L ! 0)"
    and "todoReducer ?L (Toggle 7) ! 2 = (if id' (?L ! 2) = 7 then (?L ! 2)\<lparr>done := \<not> done (?L ! 2)\<rparr> else ?L ! 2)"
    by blast+
  then have "todoReducer ?L (Toggle 7) ! 0 = \<lparr>id' = 7, todo = ''a'', done = True\<rparr>"
    and "todoReducer ?L (Toggle 7) ! 2 = \<lparr>id' = 7, todo = ''c'', done = False\<rparr>"
    by simp_all
  with deleted show ?thesis by blast
qed

section \<open>useForm\<close>

lemma formState_after_Nil: "formState_after form [] = form"
  by (simp add: formState_after_def useForm_def useState_def)

lemma formState_after_snoc:
  "formState_after form (cs @ [c]) =
     form_invoke (useForm form (Some (formState_after form cs))) c (formState_after form cs)"
  by (cases "foldl (form_step form) None cs")
     (simp_all add: formState_after_def form_step_def useForm_def useState_def Let_def)

lemma formState_after_change:
  "formState_after form (cs @ [InputChange t]) = (formState_after form cs)(name t \<mapsto> Text (value t))"
  by (simp add: formState_after_snoc useForm_def)

lemma formState_after_reset: "formState_after form (cs @ [ResetForm]) = form"
  by (simp add: formState_after_snoc useForm_def)

lemma dom_formState_after_change:
  "dom (formState_after form (cs @ [InputChange t])) = insert (name t) (dom (formState_after form cs))"
  by (simp only: formState_after_change dom_fun_upd option.simps if_False)

lemma dom_formState_after:
  "\<forall>c \<in> set cs. call_name_in (dom form) c \<Longrightarrow> dom (formState_after form cs) = dom form"
proof (induction cs rule: rev_induct)
  case Nil
  show ?case by (simp add: formState_after_Nil)
next
  case (snoc c cs)
  then have ih: "dom (formState_after form cs) = dom form" and c: "call_name_in (dom form) c"
    by simp_all
  show ?case
  proof (cases c)
    case (InputChange t)
    with c have "name t \<in> dom form" by simp
    with ih show ?thesis
      unfolding InputChange dom_formState_after_change by (simp add: insert_absorb)
  next
    case ResetForm
    then show ?thesis by (simp add: formState_after_reset)
  qed
qed

text \<open>
  Claim C3, as the code has it. The keys of the form state are those of the initial
  record after any resets and input changes whose names are keys of the initial
  record. A change of an input with any other name adds that name to the keys: the
  keys after a change are the keys before it and the input's name, and a reset gives
  the keys of the initial record back.
\<close>

theorem useForm_keys:
  "dom (formState_after form []) = dom form
   \<and> dom (formState_after form (cs @ [InputChange t])) = insert (name t) (dom (formState_after form cs))
   \<and> dom (formState_after form (cs @ [ResetForm])) = dom form
   \<and> ((\<forall>c \<in> set cs. call_name_in (dom form) c) \<longrightarrow> dom (formState_after form cs) = dom form)"
  using dom_formState_after [of cs form]
  by (simp add: formState_after_Nil dom_formState_after_change formState_after_reset)

theorem useForm_keys_witness:
  "list_all
     (call_name_in (dom ([''email'' \<mapsto> Text '''', ''password'' \<mapsto> Text ''''] :: string \<rightharpoonup> unit unknown)))
     [InputChange \<lparr>name = ''email'', value = ''a@b.com''\<rparr>, ResetForm,
      InputChange \<lparr>name = ''password'', value = ''p''\<rparr>]
   \<and> dom (formState_after ([''email'' \<mapsto> Text '''', ''password'' \<mapsto> Text ''''] :: string \<rightharpoonup> unit unknown)
        [InputChange \<lparr>name = ''email'', value = ''a@b.com''\<rparr>, ResetForm,
         InputChange \<lparr>name = ''password'', value = ''p''\<rparr>])
     = {''email'', ''password''}"
proof -
  let ?form = "[''email'' \<mapsto> Text '''', ''password'' \<mapsto> Text ''''] :: string \<rightharpoonup> unit unknown"
  let ?cs = "[InputChange \<lparr>name = ''email'', value = ''a@b.com''\<rparr>, ResetForm,
              InputChange \<lparr>name = ''password'', value = ''p''\<rparr>]"
  have names: "list_all (call_name_in (dom ?form)) ?cs" by simp
  then have "\<forall>c \<in> set ?cs. call_name_in (dom ?form) c" by (simp only: list_all_iff)
  with useForm_keys [of ?form ?cs] have "dom (formState_after ?form ?cs) = dom ?form"
    by blast
  with names show ?thesis by auto
qed

text \<open>
  The claim as it was written, for input changes of any name, fails: an input named
  \<open>nick\<close> adds a key to a form that has only \<open>email\<close>.
\<close>

theorem useForm_keys_counterexample:
  "dom (formState_after ([''email'' \<mapsto> Text ''''] :: string \<rightharpoonup> unit unknown)
          [InputChange \<lparr>name = ''nick'', value = ''x''\<rparr>])
     \<noteq> dom ([''email'' \<mapsto> Text ''''] :: string \<rightharpoonup> unit unknown)"
proof -
  have "dom (formState_after ([''email'' \<mapsto> Text ''''] :: string \<rightharpoonup> unit unknown)
          ([] @ [InputChange \<lparr>name = ''nick'', value = ''x''\<rparr>]))
        = {''nick'', ''email''}"
    unfolding dom_formState_after_change formState_after_Nil by simp
  then show ?thesis by simp
qed

section \<open>useFetchRickAndMorty\<close>

text \<open>
  Claim C7. A call that leaves the optional parameters out hands the query library
  \<open>staleTime\<close> 300000, \<open>gcTime\<close> 1800000, \<open>retry\<close> 3, \<open>retryDelay\<close> 1000 and the
  query key \<open>[url]\<close>; in every call the query is enabled exactly when the URL is not
  empty, and refetching on window focus is off.
\<close>

theorem useQuery_options_defaults:
  "useQuery_options
     \<lparr>url = u, queryKey = None, staleTime = None, gcTime = None, retry = None, retryDelay = None\<rparr>
     = \<lparr>queryKey = [Text u], staleTime = 300000, gcTime = 1800000, retry = Attempts 3,
        retryDelay = 1000, enabled = (u \<noteq> []), refetchOnWindowFocus = False\<rparr>
   \<and> enabled (useQuery_options config) = (QueryConfig.url config \<noteq> [])
   \<and> refetchOnWindowFocus (useQuery_options config) = False"
  by (simp add: useQuery_options_def default_param_def)

section \<open>useFetch\<close>

lemma useFetch_run_snoc:
  "useFetch_run u p (evs @ [e]) = useFetch_event (useFetch_run u p evs) e"
  by (simp add: useFetch_run_def)

lemma useFetch_run_Nil: "useFetch_run u p [] = useFetch_mount u p"
  by (simp add: useFetch_run_def)

text \<open>No state that is set has \<open>loading\<close> with data.\<close>

lemma setState_loading:
  "(loading s \<longrightarrow> State.data s = JNull) \<Longrightarrow> (loading (state h) \<longrightarrow> State.data (state h) = JNull)
   \<Longrightarrow> loading (state (setState s h)) \<longrightarrow> State.data (state (setState s h)) = JNull"
  by (simp add: setState_def)

lemma fetchData_loading:
  assumes "loading (state h) \<longrightarrow> State.data (state h) = JNull"
  shows "loading (state (snd (fetchData m u (p, h)))) \<longrightarrow> State.data (state (snd (fetchData m u (p, h)))) = JNull"
  using assms by (simp add: fetchData_def await_fetch_def setLoadinState_def setState_def Let_def split: option.split)

lemma effect_loading:
  assumes "loading (state h) \<longrightarrow> State.data (state h) = JNull"
  shows "loading (state (snd (effect u (p, h)))) \<longrightarrow> State.data (state (snd (effect u (p, h)))) = JNull"
  using assms by (simp add: effect_def fetchData_loading)

lemma fetchData_resume_loading:
  assumes "loading (state h) \<longrightarrow> State.data (state h) = JNull"
    and "fetchData_resume c r (p, h) = Inr (p', h')"
  shows "loading (state h') \<longrightarrow> State.data (state h') = JNull"
  using assms
  by (auto simp: fetchData_resume_def fetchData_try_def setState_def
           split: fetch_result.splits if_splits sum.splits)

lemma useFetch_event_loading:
  assumes "loading (state (snd w)) \<longrightarrow> State.data (state (snd w)) = JNull"
  shows "loading (state (snd (useFetch_event w e))) \<longrightarrow> State.data (state (snd (useFetch_event w e))) = JNull"
proof (cases w)
  case (Pair p h)
  with assms have h: "loading (state h) \<longrightarrow> State.data (state h) = JNull" by simp
  show ?thesis
  proof (cases e)
    case (Render u)
    have "loading (state ((cleanup h)\<lparr>deps := u\<rparr>)) \<longrightarrow> State.data (state ((cleanup h)\<lparr>deps := u\<rparr>)) = JNull"
      using h by (simp add: cleanup_def)
    from effect_loading [OF this] h show ?thesis
      by (simp add: Pair Render useFetch_render_def)
  next
    case Unmount
    with h show ?thesis by (simp add: Pair useFetch_unmount_def cleanup_def)
  next
    case (Settle k r)
    show ?thesis
    proof (cases "k < length (awaiting h)")
      case False
      with h show ?thesis by (simp add: Pair Settle useFetch_settle_def)
    next
      case True
      let ?rest = "h\<lparr>awaiting := take k (awaiting h) @ drop (Suc k) (awaiting h)\<rparr>"
      have rest: "loading (state ?rest) \<longrightarrow> State.data (state ?rest) = JNull" using h by simp
      show ?thesis
      proof (cases "fetchData_resume (awaiting h ! k) r (p, ?rest)")
        case (Inl e)
        with True rest show ?thesis by (simp add: Pair Settle useFetch_settle_def Let_def)
      next
        case (Inr w')
        obtain p' h' where w': "w' = (p', h')" by (cases w')
        from fetchData_resume_loading [OF rest Inr [unfolded w']]
        show ?thesis using True Inr by (simp add: Pair Settle useFetch_settle_def Let_def w')
      qed
    qed
  qed
qed

lemma useFetch_mount_loading:
  "loading (state (snd (useFetch_mount u p))) \<longrightarrow> State.data (state (snd (useFetch_mount u p))) = JNull"
  unfolding useFetch_mount_def by (rule effect_loading) simp

lemma useFetch_run_loading:
  "loading (state (snd (useFetch_run u p evs))) \<longrightarrow> State.data (state (snd (useFetch_run u p evs))) = JNull"
proof (induction evs rule: rev_induct)
  case Nil
  show ?case by (simp add: useFetch_run_Nil useFetch_mount_loading)
next
  case (snoc e evs)
  show ?case unfolding useFetch_run_snoc by (rule useFetch_event_loading) (rule snoc)
qed

text \<open>Every waiting call was given \<open>true\<close> for \<open>isMounted\<close>.\<close>

lemma fetchData_awaiting:
  assumes "list_all isMounted_param (awaiting h)"
  shows "list_all isMounted_param (awaiting (snd (fetchData True u (p, h))))"
  using assms by (simp add: fetchData_def await_fetch_def setLoadinState_def setState_def Let_def split: option.split)

lemma effect_awaiting:
  assumes "list_all isMounted_param (awaiting h)"
  shows "list_all isMounted_param (awaiting (snd (effect u (p, h))))"
  using assms by (simp add: effect_def fetchData_awaiting)

lemma fetchData_resume_awaiting:
  assumes "fetchData_resume c r (p, h) = Inr (p', h')"
  shows "awaiting h' = awaiting h"
  using assms
  by (auto simp: fetchData_resume_def fetchData_try_def setState_def
           split: fetch_result.splits if_splits sum.splits)

lemma list_all_remove: "list_all P xs \<Longrightarrow> list_all P (take k xs @ drop (Suc k) xs)"
  by (auto simp: list_all_iff dest: in_set_takeD in_set_dropD)

lemma useFetch_event_awaiting:
  assumes "list_all isMounted_param (awaiting (snd w))"
  shows "list_all isMounted_param (awaiting (snd (useFetch_event w e)))"
proof (cases w)
  case (Pair p h)
  with assms have h: "list_all isMounted_param (awaiting h)" by simp
  show ?thesis
  proof (cases e)
    case (Render u)
    have "list_all isMounted_param (awaiting ((cleanup h)\<lparr>deps := u\<rparr>))"
      using h by (simp add: cleanup_def)
    from effect_awaiting [OF this] h show ?thesis
      by (simp add: Pair Render useFetch_render_def)
  next
    case Unmount
    with h show ?thesis by (simp add: Pair useFetch_unmount_def cleanup_def)
  next
    case (Settle k r)
    show ?thesis
    proof (cases "k < length (awaiting h)")
      case False
      with h show ?thesis by (simp add: Pair Settle useFetch_settle_def)
    next
      case True
      let ?rest = "h\<lparr>awaiting := take k (awaiting h) @ drop (Suc k) (awaiting h)\<rparr>"
      have rest: "list_all isMounted_param (awaiting ?rest)" using list_all_remove [OF h, of k] by simp
      show ?thesis
      proof (cases "fetchData_resume (awaiting h ! k) r (p, ?rest)")
        case (Inl e)
        with True rest show ?thesis by (simp add: Pair Settle useFetch_settle_def Let_def)
      next
        case (Inr w')
        obtain p' h' where w': "w' = (p', h')" by (cases w')
        from fetchData_resume_awaiting [OF Inr [unfolded w']] rest
        show ?thesis using True Inr by (simp add: Pair Settle useFetch_settle_def Let_def w')
      qed
    qed
  qed
qed

lemma useFetch_run_awaiting:
  "list_all isMounted_param (awaiting (snd (useFetch_run u p evs)))"
proof (induction evs rule: rev_induct)
  case Nil
  have "list_all isMounted_param (awaiting (snd (effect u (p, h))))" if "awaiting h = []" for h
    by (rule effect_awaiting) (simp add: that)
  then show ?case by (simp add: useFetch_run_Nil useFetch_mount_def)
next
  case (snoc e evs)
  show ?case unfolding useFetch_run_snoc by (rule useFetch_event_awaiting) (rule snoc)
qed

lemma fetchData_resume_returns: "\<not> isl (fetchData_resume call result w)"
  by (cases w) (simp add: fetchData_resume_def split: sum.split)

lemma settle_mounted:
  assumes "alive h" and "k < length (awaiting h)" and "isMounted_param (awaiting h ! k)"
  shows "state (snd (useFetch_settle k result (p, h))) =
     (case result of
        Rejected e \<Rightarrow>
          \<lparr>data = JNull, loading = False, hasError = True,
           error = Some (case e of Error message \<Rightarrow> message | NotAnError \<Rightarrow> ''An error occurred'')\<rparr>
      | Answered resp \<Rightarrow>
          if \<not> ok resp
          then \<lparr>data = JNull, loading = False, hasError = True,
                error = Some (''HTTP error! status: '' @ toString (status resp))\<rparr>
          else
            (case json resp of
               Inl e \<Rightarrow>
                 \<lparr>data = JNull, loading = False, hasError = True,
                  error = Some (case e of Error message \<Rightarrow> message | NotAnError \<Rightarrow> ''An error occurred'')\<rparr>
             | Inr d \<Rightarrow> \<lparr>data = d, loading = False, hasError = False, error = None\<rparr>))"
  using assms
  by (simp add: useFetch_settle_def fetchData_resume_def fetchData_try_def setState_def Let_def
           split: fetch_result.split sum.split)

lemma useFetch_mount_miss:
  "useFetch_mount u \<lparr>localCache = Map.empty, requests = []\<rparr> =
     (\<lparr>localCache = Map.empty, requests = [u]\<rparr>,
      \<lparr>state = \<lparr>data = JNull, loading = True, hasError = False, error = None\<rparr>,
       alive = True, deps = u, isMounted_vars = [True],
       awaiting = [\<lparr>isMounted_param = True, url_param = u\<rparr>]\<rparr>)"
  by (simp add: useFetch_mount_def effect_def fetchData_def await_fetch_def setLoadinState_def setState_def)

text \<open>
  Claim C5. While the component is mounted, a request that fails leaves the hook with
  \<open>hasError\<close> true, no data, and the message of the failure as \<open>error\<close>: the text
  \<open>HTTP error! status: \<close> and the status for an answer outside 200 to 299 (so
  \<open>HTTP error! status: 404\<close> for a 404), the message of the \<open>Error\<close> thrown when the
  request is rejected or the body is not JSON, and \<open>An error occurred\<close> when what was
  thrown is not an \<open>Error\<close>. Nothing is thrown out of \<open>fetchData\<close>. (An answer that
  is read as JSON without failure gives its data and no error.)
\<close>

theorem useFetch_failure:
  assumes "alive (snd (useFetch_run u p evs))"
    and "k < length (awaiting (snd (useFetch_run u p evs)))"
  shows "state (snd (useFetch_run u p (evs @ [Settle k result]))) =
     (case result of
        Rejected e \<Rightarrow>
          \<lparr>data = JNull, loading = False, hasError = True,
           error = Some (case e of Error message \<Rightarrow> message | NotAnError \<Rightarrow> ''An error occurred'')\<rparr>
      | Answered resp \<Rightarrow>
          if \<not> ok resp
          then \<lparr>data = JNull, loading = False, hasError = True,
                error = Some (''HTTP error! status: '' @ toString (status resp))\<rparr>
          else
            (case json resp of
               Inl e \<Rightarrow>
                 \<lparr>data = JNull, loading = False, hasError = True,
                  error = Some (case e of Error message \<Rightarrow> message | NotAnError \<Rightarrow> ''An error occurred'')\<rparr>
             | Inr d \<Rightarrow> \<lparr>data = d, loading = False, hasError = False, error = None\<rparr>))
     \<and> \<not> isl (fetchData_resume call result w)"
proof -
  obtain p1 h1 where w1: "useFetch_run u p evs = (p1, h1)" by (cases "useFetch_run u p evs")
  from assms have alive: "alive h1" and k: "k < length (awaiting h1)" by (simp_all add: w1)
  from useFetch_run_awaiting [of u p evs] have "list_all isMounted_param (awaiting h1)"
    by (simp add: w1)
  with k have "isMounted_param (awaiting h1 ! k)" by (simp add: list_all_length)
  from settle_mounted [OF alive k this, of result p1] show ?thesis
    by (simp add: useFetch_run_snoc w1 fetchData_resume_returns)
qed

theorem useFetch_failure_witness:
  "alive (snd (useFetch_run ''/missing'' \<lparr>localCache = Map.empty, requests = []\<rparr> []))
   \<and> 0 < length (awaiting (snd (useFetch_run ''/missing'' \<lparr>localCache = Map.empty, requests = []\<rparr> [])))
   \<and> state (snd (useFetch_run ''/missing'' \<lparr>localCache = Map.empty, requests = []\<rparr>
         [Settle 0 (Answered \<lparr>status = 404, json = Inr JNull\<rparr>)]))
       = \<lparr>data = JNull, loading = False, hasError = True, error = Some ''HTTP error! status: 404''\<rparr>"
proof -
  let ?p = "\<lparr>localCache = Map.empty, requests = []\<rparr>"
  have a: "alive (snd (useFetch_run ''/missing'' ?p []))"
    by (simp add: useFetch_run_Nil useFetch_mount_miss)
  have k: "0 < length (awaiting (snd (useFetch_run ''/missing'' ?p [])))"
    by (simp add: useFetch_run_Nil useFetch_mount_miss)
  have digits: "toString 404 = ''404''"
    by (simp add: toString.simps [of 404] toString.simps [of 40] toString.simps [of 4])
  from useFetch_failure [OF a k, of "Answered \<lparr>status = 404, json = Inr JNull\<rparr>"]
  have "state (snd (useFetch_run ''/missing'' ?p [Settle 0 (Answered \<lparr>status = 404, json = Inr JNull\<rparr>)]))
       = \<lparr>data = JNull, loading = False, hasError = True, error = Some ''HTTP error! status: 404''\<rparr>"
    by (simp add: ok_def digits)
  with a k show ?thesis by blast
qed

text \<open>
  Claim C8. In every state that \<open>useFetch\<close> reaches, \<open>loading\<close> holds only without
  data; and \<open>useFetchRickAndMorty\<close> returns \<open>isLoading\<close> only without data whenever the
  query library reports \<open>isLoading\<close> only without data, as its result type says it
  does.
\<close>

theorem FetchState_loading_without_data:
  "(loading (state (snd (useFetch_run u p evs))) \<longrightarrow> data (state (snd (useFetch_run u p evs))) = JNull)
   \<and> ((UseQueryResult.isLoading query \<longrightarrow> UseQueryResult.data query = None) \<longrightarrow>
        isLoading (QueryResponse_of query) \<longrightarrow> QueryResponse.data (QueryResponse_of query) = JNull)"
  using useFetch_run_loading [of u p evs] by (simp add: QueryResponse_of_def)

theorem FetchState_loading_without_data_witness:
  "loading (state (snd (useFetch_run ''/a'' \<lparr>localCache = Map.empty, requests = []\<rparr> [])))
   \<and> data (state (snd (useFetch_run ''/a'' \<lparr>localCache = Map.empty, requests = []\<rparr> []))) = JNull
   \<and> UseQueryResult.isLoading \<lparr>UseQueryResult.data = None, isLoading = True, isError = False, error = None\<rparr>
   \<and> UseQueryResult.data \<lparr>UseQueryResult.data = None, isLoading = True, isError = False, error = None\<rparr> = None
   \<and> isLoading (QueryResponse_of \<lparr>UseQueryResult.data = None, isLoading = True, isError = False, error = None\<rparr>)
   \<and> QueryResponse.data (QueryResponse_of \<lparr>UseQueryResult.data = None, isLoading = True, isError = False, error = None\<rparr>) = JNull"
proof -
  let ?w = "useFetch_run ''/a'' \<lparr>localCache = Map.empty, requests = []\<rparr> []"
  let ?q = "\<lparr>UseQueryResult.data = None, isLoading = True, isError = False, error = None\<rparr>"
  have l: "loading (state (snd ?w))" by (simp add: useFetch_run_Nil useFetch_mount_miss)
  have q: "UseQueryResult.isLoading ?q" "UseQueryResult.data ?q = None" by simp_all
  have r: "isLoading (QueryResponse_of ?q)" by (simp add: QueryResponse_of_def)
  from FetchState_loading_without_data [of "''/a''" "\<lparr>localCache = Map.empty, requests = []\<rparr>" "[]" ?q] l q r
  have "data (state (snd ?w)) = JNull" "QueryResponse.data (QueryResponse_of ?q) = JNull"
    by blast+
  with l q r show ?thesis by blast
qed

text \<open>
  Claim C1, at an input where the code departs from it. The component renders with
  \<open>/a\<close>, then with \<open>/b\<close> before the first request is answered. The cleanup has set
  the first effect's \<open>isMounted\<close> to false and the state is the loading state of
  the second fetch. When the answer for \<open>/a\<close> arrives it is stored in the cache, as
  the claim says, and it is also put into the state, which the claim says it is not:
  \<open>fetchData\<close> tests its own parameter, a copy made when the variable was still
  true. When the answer for \<open>/b\<close> arrives first and the one for \<open>/a\<close> after it, the
  hook is left with the data of \<open>/a\<close> for the URL \<open>/b\<close>.
\<close>

theorem useFetch_stale_result_applied:
  "state (snd (useFetch_run ''/a'' \<lparr>localCache = Map.empty, requests = []\<rparr> [Render ''/b'']))
     = \<lparr>data = JNull, loading = True, hasError = False, error = None\<rparr>
   \<and> useFetch_run ''/a'' \<lparr>localCache = Map.empty, requests = []\<rparr>
       [Render ''/b'', Settle 0 (Answered \<lparr>status = 200, json = Inr (JString ''A'')\<rparr>)]
     = (\<lparr>localCache = [''/a'' \<mapsto> JString ''A''], requests = [''/a'', ''/b'']\<rparr>,
        \<lparr>state = \<lparr>data = JString ''A'', loading = False, hasError = False, error = None\<rparr>,
         alive = True, deps = ''/b'', isMounted_vars = [False, True],
         awaiting = [\<lparr>isMounted_param = True, url_param = ''/b''\<rparr>]\<rparr>)
   \<and> state (snd (useFetch_run ''/a'' \<lparr>localCache = Map.empty, requests = []\<rparr>
         [Render ''/b'', Settle 1 (Answered \<lparr>status = 200, json = Inr (JString ''B'')\<rparr>),
          Settle 0 (Answered \<lparr>status = 200, json = Inr (JString ''A'')\<rparr>)]))
     = \<lparr>data = JString ''A'', loading = False, hasError = False, error = None\<rparr>"
  by (simp add: useFetch_run_def useFetch_mount_miss useFetch_render_def cleanup_def effect_def
        fetchData_def await_fetch_def setLoadinState_def setState_def useFetch_settle_def fetchData_resume_def
        fetchData_try_def ok_def)

text \<open>
  After the component is unmounted a settled request leaves the state as it is, since
  React drops the \<open>setState\<close>; an answer with JSON data is stored in the cache in
  every case.
\<close>

lemma useFetch_settle_unmounted:
  "\<not> alive h \<Longrightarrow> state (snd (useFetch_settle k result (p, h))) = state h"
  by (simp add: useFetch_settle_def fetchData_resume_def fetchData_try_def setState_def Let_def
           split: fetch_result.split sum.split)

lemma useFetch_settle_cached:
  assumes "k < length (awaiting h)" and "ok resp" and "json resp = Inr d"
  shows "localCache (fst (useFetch_settle k (Answered resp) (p, h)))
           = (localCache p)(url_param (awaiting h ! k) \<mapsto> d)"
  using assms
  by (simp add: useFetch_settle_def fetchData_resume_def fetchData_try_def Let_def)

text \<open>The number \<open>0\<close> is falsy.\<close>

lemma zero_literal_0: "zero_literal ''0''"
  by (simp add: zero_literal_def decimal_def digit_value_def)

text \<open>
  Claim C4, at an input where the code departs from it. A first instance fetches
  \<open>/count\<close>, the answer is the JSON number \<open>0\<close>, and the cache holds it under the
  URL. A second instance for the same URL sends a second request and shows the
  loading state: the cache is tested for a truthy value, not for the key.
\<close>

theorem useFetch_falsy_cache_refetched:
  "fst (useFetch_run ''/count'' \<lparr>localCache = Map.empty, requests = []\<rparr>
         [Settle 0 (Answered \<lparr>status = 200, json = Inr (JNumber ''0'')\<rparr>)])
     = \<lparr>localCache = [''/count'' \<mapsto> JNumber ''0''], requests = [''/count'']\<rparr>
   \<and> useFetch_mount ''/count'' \<lparr>localCache = [''/count'' \<mapsto> JNumber ''0''], requests = [''/count'']\<rparr>
     = (\<lparr>localCache = [''/count'' \<mapsto> JNumber ''0''], requests = [''/count'', ''/count'']\<rparr>,
        \<lparr>state = \<lparr>data = JNull, loading = True, hasError = False, error = None\<rparr>,
         alive = True, deps = ''/count'', isMounted_vars = [True],
         awaiting = [\<lparr>isMounted_param = True, url_param = ''/count''\<rparr>]\<rparr>)"
  by (simp add: useFetch_run_def useFetch_mount_miss useFetch_mount_def effect_def
        fetchData_def await_fetch_def setLoadinState_def setState_def useFetch_settle_def fetchData_resume_def
        fetchData_try_def ok_def zero_literal_0)

text \<open>A truthy value in the cache is returned without a request.\<close>

lemma useFetch_cache_hit:
  assumes "localCache p u = Some cached" and "truthy cached"
  shows "useFetch_mount u p =
     (p, \<lparr>state = \<lparr>data = cached, loading = False, hasError = False, error = None\<rparr>,
          alive = True, deps = u, isMounted_vars = [True], awaiting = []\<rparr>)"
  using assms
  by (simp add: useFetch_mount_def effect_def fetchData_def await_fetch_def setLoadinState_def setState_def)

section \<open>JSON.parse\<close>

text \<open>
  Every parser reads at least one character, and a parse that succeeds with some
  bound succeeds, with the same result, with every bound from the number of
  characters it read: the bound that \<open>JSON_parse\<close> gives never cuts a parse short.
\<close>

lemma skip_ws_length: "length (skip_ws s) \<le> length s"
  by (simp add: skip_ws_def length_dropWhile_le)

lemma string_body_shorter: "string_body s = Some (b, r) \<Longrightarrow> length r < length s"
proof (induction s arbitrary: b rule: string_body.induct)
  case 1
  then show ?case by simp
next
  case (2 c cs)
  show ?case
  proof (cases "c = CHR 0x22")
    case True
    with "2.prems" show ?thesis by simp
  next
    case quote: False
    show ?thesis
    proof (cases "c = CHR 0x5C")
      case False
      with quote "2.prems" obtain b' where "string_body cs = Some (b', r)"
        by (auto split: if_splits)
      with "2.IH"(3) [OF quote False] quote False "2.prems" show ?thesis
        by (fastforce split: if_splits)
    next
      case True
      with quote "2.prems" obtain e t where cs: "cs = e # t"
        by (cases cs) auto
      show ?thesis
      proof (cases "e \<in> set [CHR 0x22, CHR 0x5C, CHR ''/'', CHR ''b'', CHR ''f'', CHR ''n'', CHR ''r'', CHR ''t'']")
        case esc: True
        with quote True cs "2.prems" obtain b' where "string_body t = Some (b', r)"
          by auto
        with "2.IH"(1) [OF quote True cs esc] show ?thesis by (simp add: cs)
      next
        case esc: False
        with quote True cs "2.prems"
        have u: "e = CHR ''u'' \<and> 4 \<le> length t \<and> list_all is_hex (take 4 t)"
          by (auto split: if_splits)
        with esc quote True cs "2.prems" obtain b' where "string_body (drop 4 t) = Some (b', r)"
          by (auto split: if_splits)
        with "2.IH"(2) [OF quote True cs esc u] show ?thesis by (simp add: cs)
      qed
    qed
  qed
qed

lemma digits_shorter: "digits s = Some (ds, r) \<Longrightarrow> length r < length s"
proof -
  assume "digits s = Some (ds, r)"
  then have ne: "takeWhile is_digit s \<noteq> []" and r: "r = dropWhile is_digit s"
    by (auto simp: digits_def split: if_splits)
  have "length (takeWhile is_digit s) + length (dropWhile is_digit s) = length s"
    by (metis length_append takeWhile_dropWhile_id)
  with ne r show ?thesis by (cases "takeWhile is_digit s") auto
qed

lemma number_int_shorter: "number_int s = Some (i, r) \<Longrightarrow> length r < length s"
  by (auto simp: number_int_def split: list.splits if_splits dest: digits_shorter)

lemma number_frac_shorter: "number_frac s = Some (f, r) \<Longrightarrow> length r \<le> length s"
  by (auto simp: number_frac_def split: list.splits if_splits dest!: digits_shorter)

lemma number_exp_shorter: "number_exp s = Some (e, r) \<Longrightarrow> length r \<le> length s"
  by (auto simp: number_exp_def split: list.splits if_splits dest!: digits_shorter)

lemma number_shorter: "number s = Some (l, r) \<Longrightarrow> length r < length s"
proof -
  assume a: "number s = Some (l, r)"
  define s0 where "s0 = (case s of [] \<Rightarrow> s | c # t \<Rightarrow> if c = CHR ''-'' then t else s)"
  have s0: "length s0 \<le> length s" by (simp add: s0_def split: list.split)
  from a obtain i s1 f s2 e where "number_int s0 = Some (i, s1)" "number_frac s1 = Some (f, s2)"
    "number_exp s2 = Some (e, r)"
    by (auto simp: number_def s0_def split: list.splits if_splits option.splits prod.splits)
  then have "length s1 < length s0" "length s2 \<le> length s1" "length r \<le> length s2"
    by (auto dest: number_int_shorter number_frac_shorter number_exp_shorter)
  with s0 show ?thesis by simp
qed

lemma scalar_shorter: "scalar s = Some (v, r) \<Longrightarrow> length r < length s"
  by (cases s) (auto simp: scalar_def split: if_splits dest!: string_body_shorter number_shorter)

lemma json_value_shorter_fuel:
  "(\<forall>s v r. json_value n s = Some (v, r) \<longrightarrow>
      length r < length s \<and> (\<forall>m. length s - length r \<le> m \<longrightarrow> json_value m s = Some (v, r)))
   \<and> (\<forall>s vs r. elements n s = Some (vs, r) \<longrightarrow>
      length r < length s \<and> (\<forall>m. length s - length r \<le> m \<longrightarrow> elements m s = Some (vs, r)))
   \<and> (\<forall>s ms r. members n s = Some (ms, r) \<longrightarrow>
      length r < length s \<and> (\<forall>m. length s - length r \<le> m \<longrightarrow> members m s = Some (ms, r)))"
proof (induction n)
  case 0
  show ?case by simp
next
  case (Suc n)
  then have val: "\<And>s v r m. json_value n s = Some (v, r) \<Longrightarrow> length s - length r \<le> m \<Longrightarrow>
        json_value m s = Some (v, r)"
    and val_len: "\<And>s v r. json_value n s = Some (v, r) \<Longrightarrow> length r < length s"
    and els: "\<And>s vs r m. elements n s = Some (vs, r) \<Longrightarrow> length s - length r \<le> m \<Longrightarrow>
        elements m s = Some (vs, r)"
    and els_len: "\<And>s vs r. elements n s = Some (vs, r) \<Longrightarrow> length r < length s"
    and mem: "\<And>s ms r m. members n s = Some (ms, r) \<Longrightarrow> length s - length r \<le> m \<Longrightarrow>
        members m s = Some (ms, r)"
    and mem_len: "\<And>s ms r. members n s = Some (ms, r) \<Longrightarrow> length r < length s"
    by blast+
  have value_case: "length r < length s \<and> (\<forall>m. length s - length r \<le> m \<longrightarrow> json_value m s = Some (v, r))"
    if a: "json_value (Suc n) s = Some (v, r)" for s v r
  proof -
    from a obtain c t where t: "skip_ws s = c # t" by (cases "skip_ws s") auto
    have st: "Suc (length t) \<le> length s" using skip_ws_length [of s] by (simp add: t)
    show ?thesis
    proof (cases "c = CHR ''['' \<or> c = CHR ''{''")
      case False
      with a t have sc: "scalar (c # t) = Some (v, r)" by simp
      from scalar_shorter [OF sc] st have len: "length r < length s" by simp
      have "json_value m s = Some (v, r)" if "length s - length r \<le> m" for m
      proof -
        from that len obtain m' where "m = Suc m'" by (cases m) auto
        with False t sc show ?thesis by simp
      qed
      with len show ?thesis by blast
    next
      case True
      from a t True obtain d u where u: "skip_ws t = d # u" by (cases "skip_ws t") auto
      have tu: "Suc (length u) \<le> length t" using skip_ws_length [of t] by (simp add: u)
      show ?thesis
      proof (cases "(c = CHR ''['' \<and> d = CHR '']'') \<or> (c = CHR ''{'' \<and> d = CHR ''}'')")
        case empty: True
        with a t u have r: "r = u" and v: "v = (if c = CHR ''['' then JArray [] else JObject [])"
          by (auto split: if_splits)
        from r st tu have len: "length r < length s" by simp
        have "json_value m s = Some (v, r)" if "length s - length r \<le> m" for m
        proof -
          from that len obtain m' where "m = Suc m'" by (cases m) auto
          with empty t u r v show ?thesis by auto
        qed
        with len show ?thesis by blast
      next
        case nonempty: False
        show ?thesis
        proof (cases "c = CHR ''[''")
          case array: True
          with a t u nonempty obtain vs where e: "elements n t = Some (vs, r)" and v: "v = JArray vs"
            by (auto split: if_splits)
          from els_len [OF e] st have len: "length r < length s" by simp
          have "json_value m s = Some (v, r)" if "length s - length r \<le> m" for m
          proof -
            from that len obtain m' where m: "m = Suc m'" by (cases m) auto
            with that st have "length t - length r \<le> m'" by simp
            from els [OF e this] array t u nonempty v show ?thesis by (simp add: m)
          qed
          with len show ?thesis by blast
        next
          case False
          with True have object: "c = CHR ''{''" by simp
          with a t u nonempty obtain ms where e: "members n t = Some (ms, r)" and v: "v = JObject ms"
            by (auto split: if_splits)
          from mem_len [OF e] st have len: "length r < length s" by simp
          have "json_value m s = Some (v, r)" if "length s - length r \<le> m" for m
          proof -
            from that len obtain m' where m: "m = Suc m'" by (cases m) auto
            with that st have "length t - length r \<le> m'" by simp
            from mem [OF e this] object t u nonempty v show ?thesis by (simp add: m)
          qed
          with len show ?thesis by blast
        qed
      qed
    qed
  qed
  have elements_case: "length r < length s \<and> (\<forall>m. length s - length r \<le> m \<longrightarrow> elements m s = Some (vs, r))"
    if a: "elements (Suc n) s = Some (vs, r)" for s vs r
  proof -
    from a obtain v r1 where v: "json_value n s = Some (v, r1)"
      by (cases "json_value n s") auto
    from a v obtain c t where t: "skip_ws r1 = c # t" by (cases "skip_ws r1") auto
    have r1: "length r1 < length s" by (rule val_len [OF v])
    have tr: "Suc (length t) \<le> length r1" using skip_ws_length [of r1] by (simp add: t)
    show ?thesis
    proof (cases "c = CHR '',''")
      case comma: True
      with a v t obtain vs' where e: "elements n t = Some (vs', r)" and vs: "vs = v # vs'"
        by auto
      from els_len [OF e] tr r1 have len: "length r < length s" by simp
      have "elements m s = Some (vs, r)" if "length s - length r \<le> m" for m
      proof -
        from that len obtain m' where m: "m = Suc m'" by (cases m) auto
        from that m els_len [OF e] tr r1 have "length s - length r1 \<le> m'" "length t - length r \<le> m'"
          by simp_all
        from val [OF v this(1)] els [OF e this(2)] t comma vs show ?thesis by (simp add: m)
      qed
      with len show ?thesis by blast
    next
      case False
      with a v t have close: "c = CHR '']''" and r: "r = t" and vs: "vs = [v]"
        by (auto split: if_splits)
      from r tr r1 have len: "length r < length s" by simp
      have "elements m s = Some (vs, r)" if "length s - length r \<le> m" for m
      proof -
        from that len obtain m' where m: "m = Suc m'" by (cases m) auto
        from that m r tr r1 have "length s - length r1 \<le> m'" by simp
        from val [OF v this] t close r vs show ?thesis by (simp add: m)
      qed
      with len show ?thesis by blast
    qed
  qed
  have members_case: "length r < length s \<and> (\<forall>m. length s - length r \<le> m \<longrightarrow> members m s = Some (ms, r))"
    if a: "members (Suc n) s = Some (ms, r)" for s ms r
  proof -
    from a obtain q t where t: "skip_ws s = q # t" by (cases "skip_ws s") auto
    from a t have q: "q = CHR 0x22" by (auto split: if_splits)
    from a t q obtain k r1 where k: "string_body t = Some (k, r1)"
      by (cases "string_body t") auto
    from a t q k obtain c r2 where r2: "skip_ws r1 = c # r2" by (cases "skip_ws r1") auto
    from a t q k r2 have c: "c = CHR '':''" by (auto split: if_splits)
    from a t q k r2 c obtain v r3 where v: "json_value n r2 = Some (v, r3)"
      by (cases "json_value n r2") auto
    from a t q k r2 c v obtain d r4 where r4: "skip_ws r3 = d # r4" by (cases "skip_ws r3") auto
    have l1: "Suc (length t) \<le> length s" using skip_ws_length [of s] by (simp add: t)
    have l2: "length r1 < length t" by (rule string_body_shorter [OF k])
    have l3: "Suc (length r2) \<le> length r1" using skip_ws_length [of r1] by (simp add: r2)
    have l4: "length r3 < length r2" by (rule val_len [OF v])
    have l5: "Suc (length r4) \<le> length r3" using skip_ws_length [of r3] by (simp add: r4)
    show ?thesis
    proof (cases "d = CHR '',''")
      case comma: True
      with a t q k r2 c v r4 obtain ms' where e: "members n r4 = Some (ms', r)" and ms: "ms = (k, v) # ms'"
        by auto
      from mem_len [OF e] l1 l2 l3 l4 l5 have len: "length r < length s" by simp
      have "members m s = Some (ms, r)" if "length s - length r \<le> m" for m
      proof -
        from that len obtain m' where m: "m = Suc m'" by (cases m) auto
        from that m mem_len [OF e] l1 l2 l3 l4 l5
        have "length r2 - length r3 \<le> m'" "length r4 - length r \<le> m'"
          by simp_all
        from val [OF v this(1)] mem [OF e this(2)] t q k r2 c r4 comma ms show ?thesis
          by (simp add: m)
      qed
      with len show ?thesis by blast
    next
      case False
      with a t q k r2 c v r4 have close: "d = CHR ''}''" and r: "r = r4" and ms: "ms = [(k, v)]"
        by (auto split: if_splits)
      from r l1 l2 l3 l4 l5 have len: "length r < length s" by simp
      have "members m s = Some (ms, r)" if "length s - length r \<le> m" for m
      proof -
        from that len obtain m' where m: "m = Suc m'" by (cases m) auto
        from that m r l1 l2 l3 l4 l5 have "length r2 - length r3 \<le> m'" by simp
        from val [OF v this] t q k r2 c r4 close r ms show ?thesis by (simp add: m)
      qed
      with len show ?thesis by blast
    qed
  qed
  from value_case elements_case members_case show ?case by blast
qed

lemma json_value_fuel:
  assumes "json_value n text = Some (v, r)"
  shows "json_value (Suc (length text)) text = Some (v, r)"
  using json_value_shorter_fuel [of n] assms by (meson diff_le_self le_SucI)

lemma JSON_parse_any_fuel:
  assumes "json_value n text = Some (v, r)" and "skip_ws r = []"
  shows "JSON_parse text = Inr v"
  using json_value_fuel [OF assms(1)] assms(2) by (simp add: JSON_parse_def)

section \<open>useTodo\<close>

lemma JSON_parse_empty_array: "JSON_parse ''[]'' = Inr (JArray [])"
  by (simp add: JSON_parse_def skip_ws_def is_ws_def)

lemma JSON_parse_empty_text: "JSON_parse [] = Inl SyntaxError"
  by (simp add: JSON_parse_def skip_ws_def)

text \<open>Only \<open>null\<close> has no \<open>done\<close> to read.\<close>

lemma todo_done_throws: "todo_done t = Inl e \<longleftrightarrow> t = JNull \<and> e = TypeError"
  by (cases t) auto

lemma todo_done_returns: "t \<noteq> JNull \<Longrightarrow> \<exists>b. todo_done t = Inr b"
  by (cases t) auto

text \<open>A filter whose test never throws keeps the elements that pass it.\<close>

lemma array_filter_returns:
  "(\<And>x. x \<in> set xs \<Longrightarrow> \<exists>b. f x = Inr b) \<Longrightarrow>
   array_filter f xs = Inr (filter (\<lambda>x. f x = Inr True) xs)"
proof (induction xs)
  case Nil
  show ?case by simp
next
  case (Cons x xs)
  from Cons.prems obtain b where b: "f x = Inr b" by auto
  have "array_filter f xs = Inr (filter (\<lambda>x. f x = Inr True) xs)"
    using Cons.IH Cons.prems by simp
  with b show ?case by simp
qed

text \<open>A filter whose test throws the same error wherever it throws, throws it.\<close>

lemma array_filter_throws:
  assumes "x \<in> set xs" and "f x = Inl e" and same: "\<And>y e'. f y = Inl e' \<Longrightarrow> e' = e"
  shows "array_filter f xs = Inl e"
  using assms(1)
proof (induction xs)
  case Nil
  then show ?case by simp
next
  case (Cons y ys)
  show ?case
  proof (cases "f y")
    case (Inl e')
    with same [of y e'] show ?thesis by simp
  next
    case (Inr b)
    with Cons.prems assms(2) have "x \<in> set ys" by auto
    then have "array_filter f ys = Inl e" by (rule Cons.IH)
    with Inr show ?thesis by simp
  qed
qed

lemma useTodo_array:
  assumes "init localStorage = Inr (JArray xs)" and "JNull \<notin> set xs"
  shows "useTodo localStorage =
           Inr \<lparr>todos' = JArray xs, todosCount = length xs,
                pendingTodosCount = length (filter (\<lambda>t. todo_done t = Inr False) xs),
                completedTodosCount = length (filter (\<lambda>t. todo_done t = Inr True) xs)\<rparr>"
proof -
  have returns: "\<exists>b. todo_done x = Inr b" if "x \<in> set xs" for x
    using that assms(2) todo_done_returns [of x] by auto
  have completed: "array_filter todo_done xs = Inr (filter (\<lambda>t. todo_done t = Inr True) xs)"
    using returns by (rule array_filter_returns)
  have "array_filter (\<lambda>todo. map_sum id Not (todo_done todo)) xs
          = Inr (filter (\<lambda>t. map_sum id Not (todo_done t) = Inr True) xs)"
  proof (rule array_filter_returns)
    fix x assume "x \<in> set xs"
    then obtain b where "todo_done x = Inr b" using returns by blast
    then show "\<exists>b. map_sum id Not (todo_done x) = Inr b" by simp
  qed
  moreover have "(map_sum id Not (todo_done t) = Inr True) = (todo_done t = Inr False)" for t
    by (cases "todo_done t") auto
  ultimately have pending:
    "array_filter (\<lambda>todo. map_sum id Not (todo_done todo)) xs
       = Inr (filter (\<lambda>t. todo_done t = Inr False) xs)"
    by simp
  show ?thesis
    using assms(1) by (simp add: useTodo_def useReducer_state_def pending completed)
qed

lemma useTodo_null_element:
  assumes "init localStorage = Inr (JArray xs)" and "JNull \<in> set xs"
  shows "useTodo localStorage = Inl TypeError"
proof -
  have "array_filter (\<lambda>todo. map_sum id Not (todo_done todo)) xs = Inl TypeError"
  proof (rule array_filter_throws [OF assms(2)])
    show "map_sum id Not (todo_done JNull) = Inl TypeError" by simp
  next
    fix y e' assume "map_sum id Not (todo_done y) = Inl e'"
    then have "todo_done y = Inl e'" by (cases "todo_done y") auto
    then show "e' = TypeError" by (simp add: todo_done_throws)
  qed
  then show ?thesis
    using assms(1) by (simp add: useTodo_def useReducer_state_def)
qed

lemma useTodo_not_an_array:
  assumes "init localStorage = Inr v" and "case v of JArray xs \<Rightarrow> False | _ \<Rightarrow> True"
  shows "useTodo localStorage = Inl TypeError"
  using assms by (cases v) (simp_all add: useTodo_def useReducer_state_def)

lemma useTodo_init_throws:
  assumes "init localStorage = Inl e"
  shows "useTodo localStorage = Inl e"
  using assms by (simp add: useTodo_def useReducer_state_def)

lemma init_absent: "getItem localStorage ''todos'' = None \<Longrightarrow> init localStorage = Inr (JArray [])"
  by (simp add: init_def JSON_parse_empty_array)

lemma init_empty_text: "getItem localStorage ''todos'' = Some [] \<Longrightarrow> init localStorage = Inr (JArray [])"
  by (simp add: init_def JSON_parse_empty_array)

lemma init_text:
  "getItem localStorage ''todos'' = Some text \<Longrightarrow> text \<noteq> [] \<Longrightarrow> init localStorage = JSON_parse text"
  by (simp add: init_def)

text \<open>
  Claim C2, as the code has it. The list starts empty when the storage has no
  \<open>todos\<close> or has the empty text there, and as the parsed array when the text is a
  JSON array with no \<open>null\<close> in it; the three counts are then those of the array. A
  text that is not empty and is not JSON makes \<open>JSON.parse\<close> throw, and the
  \<open>SyntaxError\<close> leaves the hook. A text that is JSON for something else than an
  array, or for an array with a \<open>null\<close> in it, makes the first render throw a
  \<open>TypeError\<close>.
\<close>

theorem useTodo_starting_list:
  "(getItem localStorage ''todos'' = None \<longrightarrow>
      useTodo localStorage
        = Inr \<lparr>todos' = JArray [], todosCount = 0, pendingTodosCount = 0, completedTodosCount = 0\<rparr>)
   \<and> (getItem localStorage ''todos'' = Some [] \<longrightarrow>
      useTodo localStorage
        = Inr \<lparr>todos' = JArray [], todosCount = 0, pendingTodosCount = 0, completedTodosCount = 0\<rparr>)
   \<and> (getItem localStorage ''todos'' = Some text \<and> JSON_parse text = Inr (JArray xs) \<and> JNull \<notin> set xs \<longrightarrow>
      useTodo localStorage
        = Inr \<lparr>todos' = JArray xs, todosCount = length xs,
               pendingTodosCount = length (filter (\<lambda>t. todo_done t = Inr False) xs),
               completedTodosCount = length (filter (\<lambda>t. todo_done t = Inr True) xs)\<rparr>)
   \<and> (getItem localStorage ''todos'' = Some text \<and> text \<noteq> [] \<and> JSON_parse text = Inl e \<longrightarrow>
      useTodo localStorage = Inl e)
   \<and> (getItem localStorage ''todos'' = Some text \<and> JSON_parse text = Inr v
        \<and> (case v of JArray ys \<Rightarrow> False | _ \<Rightarrow> True) \<longrightarrow>
      useTodo localStorage = Inl TypeError)
   \<and> (getItem localStorage ''todos'' = Some text \<and> JSON_parse text = Inr (JArray xs) \<and> JNull \<in> set xs \<longrightarrow>
      useTodo localStorage = Inl TypeError)"
proof -
  have absent: "useTodo localStorage
        = Inr \<lparr>todos' = JArray [], todosCount = 0, pendingTodosCount = 0, completedTodosCount = 0\<rparr>"
    if "getItem localStorage ''todos'' = None"
    using useTodo_array [OF init_absent [OF that]] by simp
  have empty: "useTodo localStorage
        = Inr \<lparr>todos' = JArray [], todosCount = 0, pendingTodosCount = 0, completedTodosCount = 0\<rparr>"
    if "getItem localStorage ''todos'' = Some []"
    using useTodo_array [OF init_empty_text [OF that]] by simp
  have parsed: "init localStorage = JSON_parse text"
    if "getItem localStorage ''todos'' = Some text" and "JSON_parse text = Inr v" for v
    using that init_text [of localStorage "text"] JSON_parse_empty_text by (cases "text = []") auto
  have array: "useTodo localStorage
        = Inr \<lparr>todos' = JArray xs, todosCount = length xs,
               pendingTodosCount = length (filter (\<lambda>t. todo_done t = Inr False) xs),
               completedTodosCount = length (filter (\<lambda>t. todo_done t = Inr True) xs)\<rparr>"
    if "getItem localStorage ''todos'' = Some text" and "JSON_parse text = Inr (JArray xs)"
      and "JNull \<notin> set xs"
    using useTodo_array [of localStorage xs] parsed [OF that(1,2)] that by simp
  have throws: "useTodo localStorage = Inl e"
    if "getItem localStorage ''todos'' = Some text" and "text \<noteq> []" and "JSON_parse text = Inl e"
    using useTodo_init_throws [of localStorage e] init_text [OF that(1,2)] that(3) by simp
  have other: "useTodo localStorage = Inl TypeError"
    if "getItem localStorage ''todos'' = Some text" and "JSON_parse text = Inr v"
      and "case v of JArray ys \<Rightarrow> False | _ \<Rightarrow> True"
    using useTodo_not_an_array [of localStorage v] parsed [OF that(1,2)] that by simp
  have null: "useTodo localStorage = Inl TypeError"
    if "getItem localStorage ''todos'' = Some text" and "JSON_parse text = Inr (JArray xs)"
      and "JNull \<in> set xs"
    using useTodo_null_element [of localStorage xs] parsed [OF that(1,2)] that by simp
  from absent empty array throws other null show ?thesis by blast
qed

lemma JSON_parse_two_todos:
  "JSON_parse ''[{\"id\":1,\"todo\":\"a\",\"done\":false}, {\"id\":2,\"todo\":\"b\",\"done\":true}]''
     = Inr (JArray [JObject [(''id'', JNumber ''1''), (''todo'', JString ''a''), (''done'', JBool False)],
                    JObject [(''id'', JNumber ''2''), (''todo'', JString ''b''), (''done'', JBool True)]])"
  by (simp add: JSON_parse_def skip_ws_def is_ws_def scalar_def number_def number_int_def number_frac_def
        number_exp_def digits_def is_digit_def)

lemma JSON_parse_trailing_comma: "JSON_parse ''[1,]'' = Inl SyntaxError"
  by (simp add: JSON_parse_def skip_ws_def is_ws_def scalar_def number_def number_int_def number_frac_def
        number_exp_def digits_def is_digit_def)

lemma JSON_parse_number: "JSON_parse ''5'' = Inr (JNumber ''5'')"
  by (simp add: JSON_parse_def skip_ws_def is_ws_def scalar_def number_def number_int_def number_frac_def
        number_exp_def digits_def is_digit_def)

lemma JSON_parse_null_element: "JSON_parse ''[null]'' = Inr (JArray [JNull])"
  by (simp add: JSON_parse_def skip_ws_def is_ws_def scalar_def)

lemma done_of_two_todos:
  "todo_done (JObject [(''id'', JNumber ''1''), (''todo'', JString ''a''), (''done'', JBool False)]) = Inr False"
  "todo_done (JObject [(''id'', JNumber ''2''), (''todo'', JString ''b''), (''done'', JBool True)]) = Inr True"
  by (simp_all add: get_property_def)

theorem useTodo_starting_list_witness:
  "useTodo Map.empty
     = Inr \<lparr>todos' = JArray [], todosCount = 0, pendingTodosCount = 0, completedTodosCount = 0\<rparr>
   \<and> useTodo [''todos'' \<mapsto> '''']
     = Inr \<lparr>todos' = JArray [], todosCount = 0, pendingTodosCount = 0, completedTodosCount = 0\<rparr>
   \<and> useTodo [''todos'' \<mapsto> ''[{\"id\":1,\"todo\":\"a\",\"done\":false}, {\"id\":2,\"todo\":\"b\",\"done\":true}]'']
     = Inr \<lparr>todos' = JArray [JObject [(''id'', JNumber ''1''), (''todo'', JString ''a''), (''done'', JBool False)],
                              JObject [(''id'', JNumber ''2''), (''todo'', JString ''b''), (''done'', JBool True)]],
            todosCount = 2, pendingTodosCount = 1, completedTodosCount = 1\<rparr>
   \<and> useTodo [''todos'' \<mapsto> ''[1,]''] = Inl SyntaxError
   \<and> useTodo [''todos'' \<mapsto> ''5''] = Inl TypeError
   \<and> useTodo [''todos'' \<mapsto> ''[null]''] = Inl TypeError"
proof -
  have absent: "useTodo Map.empty
     = Inr \<lparr>todos' = JArray [], todosCount = 0, pendingTodosCount = 0, completedTodosCount = 0\<rparr>"
    using useTodo_starting_list [of Map.empty] by (simp add: getItem_def)
  have empty: "useTodo [''todos'' \<mapsto> '''']
     = Inr \<lparr>todos' = JArray [], todosCount = 0, pendingTodosCount = 0, completedTodosCount = 0\<rparr>"
    using useTodo_starting_list [of "[''todos'' \<mapsto> '''']"] by (simp add: getItem_def)
  have array: "useTodo [''todos'' \<mapsto> ''[{\"id\":1,\"todo\":\"a\",\"done\":false}, {\"id\":2,\"todo\":\"b\",\"done\":true}]'']
     = Inr \<lparr>todos' = JArray [JObject [(''id'', JNumber ''1''), (''todo'', JString ''a''), (''done'', JBool False)],
                              JObject [(''id'', JNumber ''2''), (''todo'', JString ''b''), (''done'', JBool True)]],
            todosCount = 2, pendingTodosCount = 1, completedTodosCount = 1\<rparr>"
    using useTodo_starting_list
        [of "[''todos'' \<mapsto> ''[{\"id\":1,\"todo\":\"a\",\"done\":false}, {\"id\":2,\"todo\":\"b\",\"done\":true}]'']"
          "''[{\"id\":1,\"todo\":\"a\",\"done\":false}, {\"id\":2,\"todo\":\"b\",\"done\":true}]''"
          "[JObject [(''id'', JNumber ''1''), (''todo'', JString ''a''), (''done'', JBool False)],
            JObject [(''id'', JNumber ''2''), (''todo'', JString ''b''), (''done'', JBool True)]]"]
      JSON_parse_two_todos done_of_two_todos
    by (simp add: getItem_def)
  have throws: "useTodo [''todos'' \<mapsto> ''[1,]''] = Inl SyntaxError"
    using useTodo_starting_list [of "[''todos'' \<mapsto> ''[1,]'']" "''[1,]''" _ SyntaxError]
      JSON_parse_trailing_comma
    by (simp add: getItem_def)
  have other: "useTodo [''todos'' \<mapsto> ''5''] = Inl TypeError"
    using useTodo_starting_list [of "[''todos'' \<mapsto> ''5'']" "''5''" _ _ "JNumber ''5''"]
      JSON_parse_number
    by (simp add: getItem_def)
  have null: "useTodo [''todos'' \<mapsto> ''[null]''] = Inl TypeError"
    using useTodo_starting_list [of "[''todos'' \<mapsto> ''[null]'']" "''[null]''" "[JNull]"]
      JSON_parse_null_element
    by (simp add: getItem_def)
  from absent empty array throws other null show ?thesis by simp
qed

text \<open>
  The claim as it was written, that no failure leaves the hook and that the list
  starts empty or as the parsed array, fails for the text \<open>{bad\<close>, which is not JSON,
  and for the text \<open>[null]\<close>, which is a JSON array.
\<close>

theorem useTodo_malformed_counterexample:
  "useTodo [''todos'' \<mapsto> ''{bad''] = Inl SyntaxError
   \<and> useTodo [''todos'' \<mapsto> ''[null]''] = Inl TypeError"
  by (simp add: useTodo_def useReducer_state_def init_def getItem_def JSON_parse_def skip_ws_def
        is_ws_def scalar_def)

end
